theory Spec2Isabelle
  imports Complex_Main "HOL-Library.Word"
begin

section \<open>The PAIRENTROPY collective variable\<close>

text \<open>
  A shallow embedding of \<^verbatim>\<open>PairEntropy\<close> (the collective variable registered as
  PAIRENTROPY) and of the parts of \<^verbatim>\<open>tools/Tensor.h\<close> it uses.

  Conventions of the embedding.
  \<^item> A C++ \<^verbatim>\<open>double\<close> is a \<^typ>\<open>real\<close>: the arithmetic is exact. Where the IEEE
    operation has no real value (a division by zero) the model returns the error
    \<open>NonFinite\<close> instead of HOL's \<open>x / 0 = 0\<close>.
  \<^item> \<^verbatim>\<open>unsigned\<close> counters and sizes are \<^typ>\<open>nat\<close>; the places where the
    32-bit wrap-around is observable are written out (the iteration counter of the
    running average is a \<^typ>\<open>32 word\<close>, \<^verbatim>\<open>bin - deltaBin\<close> is computed in
    \<^typ>\<open>int\<close>).
  \<^item> \<^verbatim>\<open>std::vector\<close> and \<^verbatim>\<open>Matrix\<close> are lists (of rows); a read or
    write past the end is the error \<open>OutOfBounds\<close>.
  \<^item> A call of \<^verbatim>\<open>error(...)\<close> in the constructor is the error \<open>ConfigError\<close>
    carrying the message.
\<close>

datatype error = ConfigError string | OutOfBounds | NonFinite

text \<open>Sequencing of fallible steps: the first error ends the computation.\<close>

definition bindE :: "error + 'a \<Rightarrow> ('a \<Rightarrow> error + 'b) \<Rightarrow> error + 'b" where
  "bindE m f = (case m of Inl e \<Rightarrow> Inl e | Inr x \<Rightarrow> f x)"

subsection \<open>Fixed-size linear algebra\<close>

text \<open>
  Modelled from the spec: \<^verbatim>\<open>tools/Vector.h\<close> is not among the sources. The spec's
  fixed-size 3-vector of doubles: three components, initialised to zero by the default
  constructor, with componentwise \<^verbatim>\<open>+=\<close>, \<^verbatim>\<open>-=\<close>, multiplication by a double and
  division by a double (multiplication by \<^verbatim>\<open>1.0/s\<close>, as \<^verbatim>\<open>TensorGeneric\<close> does).
\<close>

datatype Vector = Vector (vx: real) (vy: real) (vz: real)

instantiation Vector :: ab_group_add
begin

definition zero_Vector :: Vector where
  "zero_Vector = Vector 0 0 0"

definition plus_Vector :: "Vector \<Rightarrow> Vector \<Rightarrow> Vector" where
  "plus_Vector a b = Vector (vx a + vx b) (vy a + vy b) (vz a + vz b)"

definition minus_Vector :: "Vector \<Rightarrow> Vector \<Rightarrow> Vector" where
  "minus_Vector a b = Vector (vx a - vx b) (vy a - vy b) (vz a - vz b)"

definition uminus_Vector :: "Vector \<Rightarrow> Vector" where
  "uminus_Vector a = Vector (- vx a) (- vy a) (- vz a)"

instance
  by standard
    (simp_all add: zero_Vector_def plus_Vector_def minus_Vector_def uminus_Vector_def)

end

text \<open>\<^verbatim>\<open>double * Vector\<close> and \<^verbatim>\<open>Vector * double\<close>.\<close>

definition scaleV :: "real \<Rightarrow> Vector \<Rightarrow> Vector" where
  "scaleV s v = Vector (s * vx v) (s * vy v) (s * vz v)"

text \<open>\<^verbatim>\<open>Vector / double\<close> and \<^verbatim>\<open>Vector /= double\<close>: multiplication by \<^verbatim>\<open>1.0/s\<close>.\<close>

definition divV :: "Vector \<Rightarrow> real \<Rightarrow> Vector" where
  "divV v s = scaleV (1 / s) v"

text \<open>\<^verbatim>\<open>delta(v1, v2)\<close>: the vector from \<open>v1\<close> to \<open>v2\<close>.\<close>

definition delta :: "Vector \<Rightarrow> Vector \<Rightarrow> Vector" where
  "delta v1 v2 = v2 - v1"

text \<open>
  \<^verbatim>\<open>TensorGeneric<3,3>\<close> of \<^verbatim>\<open>tools/Tensor.h\<close>: nine doubles in C order,
  zero by default.
\<close>

datatype Tensor = Tensor (t00: real) (t01: real) (t02: real)
                         (t10: real) (t11: real) (t12: real)
                         (t20: real) (t21: real) (t22: real)

instantiation Tensor :: ab_group_add
begin

definition zero_Tensor :: Tensor where
  "zero_Tensor = Tensor 0 0 0 0 0 0 0 0 0"

definition plus_Tensor :: "Tensor \<Rightarrow> Tensor \<Rightarrow> Tensor" where
  "plus_Tensor a b =
     Tensor (t00 a + t00 b) (t01 a + t01 b) (t02 a + t02 b)
            (t10 a + t10 b) (t11 a + t11 b) (t12 a + t12 b)
            (t20 a + t20 b) (t21 a + t21 b) (t22 a + t22 b)"

definition minus_Tensor :: "Tensor \<Rightarrow> Tensor \<Rightarrow> Tensor" where
  "minus_Tensor a b =
     Tensor (t00 a - t00 b) (t01 a - t01 b) (t02 a - t02 b)
            (t10 a - t10 b) (t11 a - t11 b) (t12 a - t12 b)
            (t20 a - t20 b) (t21 a - t21 b) (t22 a - t22 b)"

definition uminus_Tensor :: "Tensor \<Rightarrow> Tensor" where
  "uminus_Tensor a =
     Tensor (- t00 a) (- t01 a) (- t02 a)
            (- t10 a) (- t11 a) (- t12 a)
            (- t20 a) (- t21 a) (- t22 a)"

instance
  by standard
    (simp_all add: zero_Tensor_def plus_Tensor_def minus_Tensor_def uminus_Tensor_def)

end

text \<open>\<^verbatim>\<open>TensorGeneric(v1, v2)\<close>: the external product, \<^verbatim>\<open>d[i*m+j] = v1[i]*v2[j]\<close>.\<close>

definition extProduct :: "Vector \<Rightarrow> Vector \<Rightarrow> Tensor" where
  "extProduct v1 v2 =
     Tensor (vx v1 * vx v2) (vx v1 * vy v2) (vx v1 * vz v2)
            (vy v1 * vx v2) (vy v1 * vy v2) (vy v1 * vz v2)
            (vz v1 * vx v2) (vz v1 * vy v2) (vz v1 * vz v2)"

text \<open>\<^verbatim>\<open>operator*=(double)\<close>, \<^verbatim>\<open>t*s\<close> and \<^verbatim>\<open>s*t\<close>.\<close>

definition scaleT :: "real \<Rightarrow> Tensor \<Rightarrow> Tensor" where
  "scaleT s t =
     Tensor (s * t00 t) (s * t01 t) (s * t02 t)
            (s * t10 t) (s * t11 t) (s * t12 t)
            (s * t20 t) (s * t21 t) (s * t22 t)"

text \<open>\<^verbatim>\<open>operator/=(double s)\<close>: \<^verbatim>\<open>_mul(d, 1.0/s)\<close>.\<close>

definition divT :: "Tensor \<Rightarrow> real \<Rightarrow> Tensor" where
  "divT t s = scaleT (1 / s) t"

definition determinant :: "Tensor \<Rightarrow> real" where
  "determinant t =
       t00 t * t11 t * t22 t
     + t01 t * t12 t * t20 t
     + t02 t * t10 t * t21 t
     - t00 t * t12 t * t21 t
     - t01 t * t10 t * t22 t
     - t02 t * t11 t * t20 t"

definition identity :: Tensor where
  "identity = Tensor 1 0 0 0 1 0 0 0 1"

subsection \<open>The trapezoid integrators\<close>

text \<open>
  The three overloads of \<^verbatim>\<open>PairEntropy::integrate\<close>. The argument is passed by value
  and the method is \<^verbatim>\<open>const\<close>: the model is a function of the samples and the
  spacing only. The loop \<^verbatim>\<open>for(i=1;i<size()-1;++i) result += integrand[i]\<close> is the
  fold over \<open>[1..<size-1]\<close>. On an empty vector the code reads \<^verbatim>\<open>integrand[0]\<close>
  (and \<^verbatim>\<open>size()-1\<close> wraps around): that is the error \<open>OutOfBounds\<close>.
\<close>

definition integrate :: "real list \<Rightarrow> real \<Rightarrow> error + real" where
  "integrate integrand dlt =
     (if integrand = [] then Inl OutOfBounds
      else
        let result = fold (\<lambda>i r. r + integrand ! i) [1..<length integrand - 1] 0;
            result = result + 0.5 * integrand ! 0;
            result = result + 0.5 * integrand ! (length integrand - 1);
            result = result * dlt
        in Inr result)"

definition integrateV :: "Vector list \<Rightarrow> real \<Rightarrow> error + Vector" where
  "integrateV integrand dlt =
     (if integrand = [] then Inl OutOfBounds
      else
        let result = fold (\<lambda>i r. r + integrand ! i) [1..<length integrand - 1] 0;
            result = result + scaleV 0.5 (integrand ! 0);
            result = result + scaleV 0.5 (integrand ! (length integrand - 1));
            result = scaleV dlt result
        in Inr result)"

definition integrateT :: "Tensor list \<Rightarrow> real \<Rightarrow> error + Tensor" where
  "integrateT integrand dlt =
     (if integrand = [] then Inl OutOfBounds
      else
        let result = fold (\<lambda>i r. r + integrand ! i) [1..<length integrand - 1] 0;
            result = result + scaleT 0.5 (integrand ! 0);
            result = result + scaleT 0.5 (integrand ! (length integrand - 1));
            result = scaleT dlt result
        in Inr result)"

subsection \<open>The object and its constructor\<close>

text \<open>
  The data members of \<^verbatim>\<open>class PairEntropy\<close> that the computation reads. The
  neighbour list object \<^verbatim>\<open>nl\<close> and the flags \<^verbatim>\<open>invalidateList\<close> and
  \<^verbatim>\<open>firsttime\<close> belong to the external neighbour-list provider and are not part
  of the record; \<open>ga_lista\<close> is the requested atom group.
\<close>

record PairEntropy =
  pbc :: bool
  serial :: bool
  doneigh :: bool
  ga_lista :: "nat list"
  doOutputGofr :: bool
  doOutputIntegrand :: bool
  outputStride :: nat
  maxr :: real
  sigma :: real
  nhist :: nat
  rcut2 :: real
  invSqrt2piSigma :: real
  sigmaSqr2 :: real
  sigmaSqr :: real
  deltar :: real
  deltaBin :: nat
  density_given :: real
  vectorX :: "real list"
  vectorX2 :: "real list"
  doReferenceGofr :: bool
  referenceGofr :: "real list"
  doAverageGofr :: bool
  avgGofr :: "real list"
  iteration :: "32 word"

text \<open>
  What the keyword parser hands to the constructor. A flag is a \<^typ>\<open>bool\<close>; an
  optional keyword is \<open>None\<close> when the input line does not have it (\<^verbatim>\<open>parse\<close> then
  leaves the variable at the value it had); the compulsory keywords MAXR, NHIST and SIGMA
  hold the parsed value (their registered defaults are 1, 1 and 0.1); SIGMA is
  written \<open>SIGMA'\<close>, the plain name being reserved syntax. The reference file
  is the list of the \<^verbatim>\<open>gofr\<close> fields the constructor scans, one per bin.
\<close>

record ActionOptions =
  SERIAL :: bool
  GROUPA :: "nat list"
  NOPBC :: bool
  PAIR :: bool
  NLIST :: bool
  NL_CUTOFF :: "real option"
  NL_STRIDE :: "int option"
  DENSITY :: "real option"
  MAXR :: real
  NHIST :: nat
  SIGMA' :: real
  OUTPUT_GOFR :: bool
  OUTPUT_INTEGRAND :: bool
  OUTPUT_STRIDE :: "nat option"
  REFERENCE_GOFR :: "real list option"
  AVERAGE_GOFR :: bool

text \<open>\<^verbatim>\<open>parse(key, var)\<close> on an optional keyword: the variable keeps its value when
  the keyword is absent.\<close>

definition parse :: "'a option \<Rightarrow> 'a \<Rightarrow> 'a" where
  "parse given var = (case given of None \<Rightarrow> var | Some v \<Rightarrow> v)"

text \<open>
  The constructor, check by check in the order of the source; \<^verbatim>\<open>error(...)\<close> ends
  the construction. The last block computes the "heavily used expressions". With
  \<^verbatim>\<open>NHIST=1\<close> the quotient \<^verbatim>\<open>maxr/(nhist-1.)\<close> is a division by zero: it is
  \<open>+inf\<close> for a positive \<open>maxr\<close>, which is the "Bin size too large" error, and not
  a real number otherwise. A zero \<open>sigma\<close> or \<open>deltar\<close> makes
  \<^verbatim>\<open>1./sqrt2piSigma\<close> or \<^verbatim>\<open>3*sigma/deltar\<close> a division by zero, and a negative
  \<^verbatim>\<open>3*sigma/deltar\<close> has no \<^verbatim>\<open>unsigned\<close> value: these are \<open>NonFinite\<close>.
\<close>

definition PairEntropy_ctor :: "ActionOptions \<Rightarrow> error + PairEntropy" where
  "PairEntropy_ctor ao =
    (let nl_cut = (if NLIST ao then parse (NL_CUTOFF ao) 0 else 0);
         nl_st = (if NLIST ao then parse (NL_STRIDE ao) 0 else 0)
     in
     if NLIST ao \<and> nl_cut \<le> 0 then
       Inl (ConfigError ''NL_CUTOFF should be explicitly specified and positive'')
     else if NLIST ao \<and> nl_st \<le> 0 then
       Inl (ConfigError ''NL_STRIDE should be explicitly specified and positive'')
     else
     let density_given = parse (DENSITY ao) (- 1);
         maxr = MAXR ao;
         nhist = NHIST ao;
         sigma = SIGMA' ao;
         rcut = maxr + 3 * sigma;
         rcut2 = (maxr + 3 * sigma) * (maxr + 3 * sigma)
     in
     if NLIST ao \<and> nl_cut < rcut then
       Inl (ConfigError ''NL_CUTOFF should be larger than MAXR + 3*SIGMA'')
     else
     let doOutputGofr = OUTPUT_GOFR ao;
         doOutputIntegrand = OUTPUT_INTEGRAND ao;
         outputStride = parse (OUTPUT_STRIDE ao) 1
     in
     if outputStride \<noteq> 1 \<and> \<not> doOutputGofr \<and> \<not> doOutputIntegrand then
       Inl (ConfigError
         ''Cannot specify OUTPUT_STRIDE if OUTPUT_GOFR or OUTPUT_INTEGRAND not used'')
     else if outputStride < 1 then
       Inl (ConfigError
         ''The output stride specified with OUTPUT_STRIDE must be greater than or equal to one.'')
     else
     let doReferenceGofr = (case REFERENCE_GOFR ao of None \<Rightarrow> False | Some g \<Rightarrow> True);
         referenceGofr = (case REFERENCE_GOFR ao of None \<Rightarrow> [] | Some g \<Rightarrow> take nhist g);
         doAverageGofr = AVERAGE_GOFR ao;
         sqrt2piSigma = sqrt (2 * pi) * sigma
     in
     if nhist = 1 \<and> maxr > 0 then Inl (ConfigError ''Bin size too large! Increase NHIST'')
     else if nhist = 1 then Inl NonFinite
     else
     let deltar = maxr / (real nhist - 1) in
     if deltar > sigma then Inl (ConfigError ''Bin size too large! Increase NHIST'')
     else if sigma = 0 then Inl NonFinite
     else if deltar = 0 then Inl NonFinite
     else if 3 * sigma / deltar < 0 then Inl NonFinite
     else
       Inr \<lparr> pbc = \<not> NOPBC ao,
             serial = SERIAL ao,
             doneigh = NLIST ao,
             ga_lista = GROUPA ao,
             doOutputGofr = doOutputGofr,
             doOutputIntegrand = doOutputIntegrand,
             outputStride = outputStride,
             maxr = maxr,
             sigma = sigma,
             nhist = nhist,
             rcut2 = rcut2,
             invSqrt2piSigma = 1 / sqrt2piSigma,
             sigmaSqr2 = 2 * sigma * sigma,
             sigmaSqr = sigma * sigma,
             deltar = deltar,
             deltaBin = nat \<lfloor>3 * sigma / deltar\<rfloor>,
             density_given = density_given,
             vectorX = map (\<lambda>i. deltar * real i) [0..<nhist],
             vectorX2 = map (\<lambda>i. (deltar * real i) * (deltar * real i)) [0..<nhist],
             doReferenceGofr = doReferenceGofr,
             referenceGofr = referenceGofr,
             doAverageGofr = doAverageGofr,
             avgGofr = (if doAverageGofr then replicate nhist 0 else []),
             iteration = (if doAverageGofr then 1 else 0) \<rparr>)"

subsection \<open>The host engine, one step\<close>

text \<open>
  Modelled from the spec: \<^verbatim>\<open>Colvar\<close>, \<^verbatim>\<open>ActionAtomistic\<close>, \<^verbatim>\<open>Pbc\<close>,
  \<^verbatim>\<open>NeighborListParallel\<close> and \<^verbatim>\<open>Communicator\<close> are not among the sources.
  What \<^verbatim>\<open>calculate\<close> consumes from them in one step: the requested atoms (absolute
  index and position of each, in order), the box, the minimum-image distance, the pairs
  the neighbour list of each process returns (\<^verbatim>\<open>getClosePair(i)\<close> for
  \<^verbatim>\<open>i < size()\<close>), the size of the process group and the rank of the process
  looked at, and whether derivatives are to be skipped. All processes of the group hold
  the same atoms and box.
\<close>

record Step =
  atoms :: "(nat \<times> Vector) list"
  box :: Tensor
  pbcDistance :: "Vector \<Rightarrow> Vector \<Rightarrow> Vector"
  closePairs :: "nat \<Rightarrow> (nat \<times> nat) list"
  comm_size :: nat
  comm_rank :: nat
  doNotCalculateDerivatives :: bool

definition getNumberOfAtoms :: "Step \<Rightarrow> nat" where
  "getNumberOfAtoms env = length (atoms env)"

definition getAbsoluteIndex :: "Step \<Rightarrow> nat \<Rightarrow> nat" where
  "getAbsoluteIndex env i = fst (atoms env ! i)"

definition getPosition :: "Step \<Rightarrow> nat \<Rightarrow> Vector" where
  "getPosition env i = snd (atoms env ! i)"

text \<open>
  Modelled from the spec: \<^verbatim>\<open>Communicator::Sum\<close> is the elementwise-sum all-reduce
  over the first \<open>count\<close> elements of the array of every process.
\<close>

definition comm_Sum :: "nat \<Rightarrow> ('a::comm_monoid_add) list list \<Rightarrow> 'a list" where
  "comm_Sum count xss = map (\<lambda>k. sum_list (map (\<lambda>xs. xs ! k) xss)) [0..<count]"

text \<open>The results of all processes of the group; one failure fails the collective step.\<close>

fun allRanks :: "(error + 'a) list \<Rightarrow> error + 'a list" where
  "allRanks [] = Inr []"
| "allRanks (m # ms) = bindE m (\<lambda>x. bindE (allRanks ms) (\<lambda>xs. Inr (x # xs)))"

text \<open>A loop whose body can fail.\<close>

fun foldE :: "('a \<Rightarrow> 'b \<Rightarrow> error + 'b) \<Rightarrow> 'a list \<Rightarrow> 'b \<Rightarrow> error + 'b" where
  "foldE f [] a = Inr a"
| "foldE f (x # xs) a = bindE (f x a) (foldE f xs)"

text \<open>
  The index sequence of \<^verbatim>\<open>for(unsigned i=rank; i<n; i+=stride)\<close>. The stride is the
  size of a process group (or 1) and so positive.
\<close>

function strided :: "nat \<Rightarrow> nat \<Rightarrow> nat \<Rightarrow> nat list" where
  "strided i stride n = (if 0 < stride \<and> i < n then i # strided (i + stride) stride n else [])"
  by pat_completeness auto
termination
  by (relation "measure (\<lambda>(i, stride, n). n - i)") auto

declare strided.simps [simp del]

subsection \<open>Kernel density accumulation\<close>

text \<open>The threshold \<^verbatim>\<open>1.e-10\<close> below which a bin counts as empty.\<close>

definition threshold :: real where
  "threshold = 1 / 10 ^ 10"

text \<open>\<^verbatim>\<open>kernel(distance, der)\<close>: the returned value and the derivative written to
  \<^verbatim>\<open>der\<close>. (\<open>kernel\<close> is a constant of HOL; hence the prime.)\<close>

definition kernel' :: "PairEntropy \<Rightarrow> real \<Rightarrow> real \<times> real" where
  "kernel' cfg distance =
     (let result = invSqrt2piSigma cfg * exp (- distance * distance / sigmaSqr2 cfg);
          der = - distance * result / sigmaSqr cfg
      in (result, der))"

text \<open>The three per-step arrays \<^verbatim>\<open>gofr\<close>, \<^verbatim>\<open>gofrPrime\<close> (one row per bin, one
  entry per atom) and \<^verbatim>\<open>gofrVirial\<close>.\<close>

record accum =
  gofr :: "real list"
  gofrPrime :: "Vector list list"
  gofrVirial :: "Tensor list"

text \<open>
  The cutoff test \<^verbatim>\<open>(d2=dx*dx)<rcut2 && (d2+=dy*dy)<rcut2 && (d2+=dz*dz)<rcut2\<close>
  with its early exits; the squared distance when the pair is accepted.
\<close>

definition withinCutoff :: "PairEntropy \<Rightarrow> Vector \<Rightarrow> real option" where
  "withinCutoff cfg distance =
     (let d2 = vx distance * vx distance in
      if d2 < rcut2 cfg then
        (let d2 = d2 + vy distance * vy distance in
         if d2 < rcut2 cfg then
           (let d2 = d2 + vz distance * vz distance in
            if d2 < rcut2 cfg then Some d2 else None)
         else None)
      else None)"

text \<open>
  \<^verbatim>\<open>minBin\<close> and \<^verbatim>\<open>maxBin\<close>. \<^verbatim>\<open>bin - deltaBin\<close> is an unsigned difference
  stored in an \<^verbatim>\<open>int\<close>: the (possibly negative) integer difference.
\<close>

definition binRange :: "PairEntropy \<Rightarrow> real \<Rightarrow> int \<times> int" where
  "binRange cfg distanceModulo =
     (let bin = nat \<lfloor>distanceModulo / deltar cfg\<rfloor>;
          minBin = int bin - int (deltaBin cfg);
          minBin = (if minBin < 0 then 0 else minBin);
          minBin = (if minBin > int (nhist cfg) - 1 then int (nhist cfg) - 1 else minBin);
          maxBin = int bin + int (deltaBin cfg);
          maxBin = (if maxBin > int (nhist cfg) - 1 then int (nhist cfg) - 1 else maxBin)
      in (minBin, maxBin))"

text \<open>The body of the loop over the bins \<open>k\<close> of one accepted pair.\<close>

definition addBin ::
  "PairEntropy \<Rightarrow> nat \<Rightarrow> nat \<Rightarrow> Vector \<Rightarrow> real \<Rightarrow> Vector \<Rightarrow> nat \<Rightarrow> accum \<Rightarrow> accum" where
  "addBin cfg i0 i1 distance distanceModulo distance_versor k acc =
     (let kd = kernel' cfg (vectorX cfg ! k - distanceModulo);
          dfunc = snd kd;
          val = scaleV dfunc distance_versor;
          row = gofrPrime acc ! k;
          row = row[i0 := row ! i0 + val];
          row = row[i1 := row ! i1 - val];
          vv = extProduct val distance
      in acc\<lparr> gofr := (gofr acc)[k := gofr acc ! k + fst kd],
               gofrPrime := (gofrPrime acc)[k := row],
               gofrVirial := (gofrVirial acc)[k := gofrVirial acc ! k + vv] \<rparr>)"

text \<open>
  The body of the loop over pairs, the same in the neighbour-list path and in the
  all-pairs path. A pair index outside the requested atoms (the neighbour list is
  external) is \<open>OutOfBounds\<close>; two accepted atoms at distance zero make
  \<^verbatim>\<open>distance / distanceModulo\<close> a division by zero.
\<close>

definition addPair :: "PairEntropy \<Rightarrow> Step \<Rightarrow> nat \<times> nat \<Rightarrow> accum \<Rightarrow> error + accum" where
  "addPair cfg env p acc =
    (let i0 = fst p; i1 = snd p in
     if i0 < getNumberOfAtoms env \<and> i1 < getNumberOfAtoms env then
       if getAbsoluteIndex env i0 = getAbsoluteIndex env i1 then Inr acc
       else
         let distance =
               (if pbc cfg then pbcDistance env (getPosition env i0) (getPosition env i1)
                else delta (getPosition env i0) (getPosition env i1))
         in
         case withinCutoff cfg distance of
           None \<Rightarrow> Inr acc
         | Some d2 \<Rightarrow>
             let distanceModulo = sqrt d2 in
             if distanceModulo = 0 then Inl NonFinite
             else
               let distance_versor = divV distance distanceModulo;
                   bins = binRange cfg distanceModulo
               in Inr (fold (addBin cfg i0 i1 distance distanceModulo distance_versor)
                         (map nat [fst bins..snd bins]) acc)
     else Inl OutOfBounds)"

text \<open>
  The accumulation of the process with rank \<open>r\<close>: over its neighbour-list pairs, or
  over the pairs \<open>i < j\<close> with \<open>i\<close> in its round-robin share. With no atom the
  bound \<^verbatim>\<open>getNumberOfAtoms()-1\<close> wraps around while the inner loop stays empty; the
  normalisation then divides by zero.
\<close>

definition accumulate :: "PairEntropy \<Rightarrow> Step \<Rightarrow> nat \<Rightarrow> error + accum" where
  "accumulate cfg env r =
    (let n = getNumberOfAtoms env;
         stride = (if serial cfg then 1 else comm_size env);
         rank = (if serial cfg then 0 else r);
         acc0 = \<lparr> gofr = replicate (nhist cfg) 0,
                  gofrPrime = replicate (nhist cfg) (replicate n 0),
                  gofrVirial = replicate (nhist cfg) 0 \<rparr>
     in if doneigh cfg then foldE (addPair cfg env) (closePairs env r) acc0
        else foldE (\<lambda>i. foldE (\<lambda>j. addPair cfg env (i, j)) [i + 1..<n])
               (strided rank stride (n - 1)) acc0)"

text \<open>The reduction \<^verbatim>\<open>if(!serial){ comm.Sum(gofr); comm.Sum(gofrPrime);
  comm.Sum(gofrVirial); }\<close> as the process with rank \<open>r\<close> sees it.\<close>

definition reduce :: "PairEntropy \<Rightarrow> Step \<Rightarrow> nat \<Rightarrow> error + accum" where
  "reduce cfg env r =
    (if serial cfg then accumulate cfg env r
     else
       bindE (allRanks (map (accumulate cfg env) [0..<comm_size env])) (\<lambda>accs.
         Inr \<lparr> gofr = comm_Sum (nhist cfg) (map gofr accs),
               gofrPrime = map (\<lambda>k. comm_Sum (getNumberOfAtoms env)
                                        (map (\<lambda>a. gofrPrime a ! k) accs)) [0..<nhist cfg],
               gofrVirial = comm_Sum (nhist cfg) (map gofrVirial accs) \<rparr>))"

subsection \<open>Normalisation and running average\<close>

definition density :: "PairEntropy \<Rightarrow> Step \<Rightarrow> error + real" where
  "density cfg env =
     (let volume = determinant (box env) in
      if density_given cfg > 0 then Inr (density_given cfg)
      else if volume = 0 then Inl NonFinite
      else Inr (real (getNumberOfAtoms env) / volume))"

definition normalizeBin :: "PairEntropy \<Rightarrow> real \<Rightarrow> nat \<Rightarrow> accum \<Rightarrow> error + accum" where
  "normalizeBin cfg normConstantBase j acc =
     (let normConstant = normConstantBase * vectorX2 cfg ! j in
      if normConstant = 0 then Inl NonFinite
      else
        Inr (acc\<lparr> gofr := (gofr acc)[j := gofr acc ! j / normConstant],
                   gofrVirial := (gofrVirial acc)[j := divT (gofrVirial acc ! j) normConstant],
                   gofrPrime :=
                     (gofrPrime acc)[j := map (\<lambda>v. divV v normConstant) (gofrPrime acc ! j)] \<rparr>))"

definition normalizeGofr :: "PairEntropy \<Rightarrow> Step \<Rightarrow> real \<Rightarrow> accum \<Rightarrow> error + accum" where
  "normalizeGofr cfg env TwoPiDensity acc =
     (let normConstantBase = TwoPiDensity * real (getNumberOfAtoms env)
      in foldE (normalizeBin cfg normConstantBase) [1..<nhist cfg] acc)"

text \<open>
  The running average: the updated object and the \<^verbatim>\<open>gofr\<close> array used from here
  on. \<^verbatim>\<open>(double) iteration\<close> is zero once the 32-bit counter has wrapped around.
\<close>

definition averageGofr :: "PairEntropy \<Rightarrow> real list \<Rightarrow> error + PairEntropy \<times> real list" where
  "averageGofr cfg g =
    (if doAverageGofr cfg then
       if unat (iteration cfg) = 0 then Inl NonFinite
       else
         let avg = map (\<lambda>i. avgGofr cfg ! i
                           + (g ! i - avgGofr cfg ! i) / real (unat (iteration cfg)))
                     [0..<nhist cfg]
         in Inr (cfg\<lparr> avgGofr := avg, iteration := iteration cfg + 1 \<rparr>, avg)
     else Inr (cfg, g))"

subsection \<open>Integrands\<close>

text \<open>
  The scan \<^verbatim>\<open>while (gofr[j]<1.e-10) { nhist_min=j; ++j; }\<close> from \<open>j\<close> with
  the current \<open>nhist_min\<close>; the loop has no bound on \<open>j\<close>.
\<close>

function scanGofr :: "real list \<Rightarrow> nat \<Rightarrow> nat \<Rightarrow> error + nat" where
  "scanGofr g j nhist_min =
     (if j < length g then
        (if g ! j < threshold then scanGofr g (j + 1) j else Inr nhist_min)
      else Inl OutOfBounds)"
  by pat_completeness auto
termination
  by (relation "measure (\<lambda>(g, j, nhist_min). length g - j)") auto

declare scanGofr.simps [simp del]

text \<open>
  \<^verbatim>\<open>logGofr[j]\<close> and \<^verbatim>\<open>integrand[j]\<close>. The logarithm of a bin below the
  threshold is stored by the code but never read.
\<close>

definition logGofrAt :: "PairEntropy \<Rightarrow> real list \<Rightarrow> nat \<Rightarrow> real" where
  "logGofrAt cfg g j =
     (if doReferenceGofr cfg then
        (if referenceGofr cfg ! j < threshold then 0 else ln (g ! j / referenceGofr cfg ! j))
      else ln (g ! j))"

definition integrandAt :: "PairEntropy \<Rightarrow> real list \<Rightarrow> nat \<Rightarrow> real" where
  "integrandAt cfg g j =
     (if doReferenceGofr cfg then
        (if g ! j < threshold then referenceGofr cfg ! j * vectorX2 cfg ! j
         else (g ! j * logGofrAt cfg g j - g ! j + referenceGofr cfg ! j) * vectorX2 cfg ! j)
      else
        (if g ! j < threshold then vectorX2 cfg ! j
         else (g ! j * logGofrAt cfg g j - g ! j + 1) * vectorX2 cfg ! j))"

text \<open>\<^verbatim>\<open>integrandDerivatives\<close> of atom \<open>j\<close>: \<open>nhist\<close> zero vectors, then the
  loop from \<open>nhist_min\<close>.\<close>

definition integrandDerivatives ::
  "PairEntropy \<Rightarrow> accum \<Rightarrow> real list \<Rightarrow> real list \<Rightarrow> nat \<Rightarrow> nat \<Rightarrow> Vector list" where
  "integrandDerivatives cfg acc g logG nhist_min j =
     fold (\<lambda>k v. if g ! k > threshold
                  then v[k := scaleV (vectorX2 cfg ! k) (scaleV (logG ! k) (gofrPrime acc ! k ! j))]
                  else v)
       [nhist_min..<nhist cfg] (replicate (nhist cfg) 0)"

definition integrandVirial ::
  "PairEntropy \<Rightarrow> accum \<Rightarrow> real list \<Rightarrow> real list \<Rightarrow> nat \<Rightarrow> Tensor list" where
  "integrandVirial cfg acc g logG nhist_min =
     fold (\<lambda>j v. if g ! j > threshold
                  then v[j := scaleT (vectorX2 cfg ! j) (scaleT (logG ! j) (gofrVirial acc ! j))]
                  else v)
       [nhist_min..<nhist cfg] (replicate (nhist cfg) 0)"

definition integrandVirialVolume :: "PairEntropy \<Rightarrow> real list \<Rightarrow> real list" where
  "integrandVirialVolume cfg g =
     map (\<lambda>j. if doReferenceGofr cfg
               then (- g ! j + referenceGofr cfg ! j) * vectorX2 cfg ! j
               else (- g ! j + 1) * vectorX2 cfg ! j)
       [0..<nhist cfg]"

subsection \<open>The step\<close>

text \<open>What \<^verbatim>\<open>calculate\<close> reports to the host: \<^verbatim>\<open>setValue\<close>,
  \<^verbatim>\<open>setAtomsDerivatives\<close> and \<^verbatim>\<open>setBoxDerivatives\<close>.\<close>

record Output =
  pairEntropy :: real
  deriv :: "Vector list"
  virial :: Tensor

text \<open>
  The local variables of \<^verbatim>\<open>calculate\<close> that are live once the scalar has been
  integrated: the object as the averaging left it, \<^verbatim>\<open>TwoPiDensity\<close>, the normalised
  arrays (\<^verbatim>\<open>gofrPrime\<close> and \<^verbatim>\<open>gofrVirial\<close> are never averaged), the array
  \<^verbatim>\<open>gofr\<close> used from the averaging on, \<^verbatim>\<open>logGofr\<close>, \<^verbatim>\<open>nhist_min\<close>,
  \<^verbatim>\<open>integrand\<close> and \<^verbatim>\<open>pairEntropy\<close>.
\<close>

record Locals =
  l_object :: PairEntropy
  l_TwoPiDensity :: real
  l_accum :: accum
  l_gofr :: "real list"
  l_logGofr :: "real list"
  l_nhist_min :: nat
  l_integrand :: "real list"
  l_pairEntropy :: real

text \<open>
  The first part of \<^verbatim>\<open>calculate\<close> on the process with rank \<open>r\<close>, up to
  \<^verbatim>\<open>pairEntropy = -TwoPiDensity*integrate(integrand,deltar)\<close>. The output of g(r) and
  of the integrand to files is not modelled.
\<close>

definition valueStage :: "PairEntropy \<Rightarrow> Step \<Rightarrow> nat \<Rightarrow> error + Locals" where
  "valueStage cfg env r =
     bindE (reduce cfg env r) (\<lambda>acc.
     bindE (density cfg env) (\<lambda>dens.
       let TwoPiDensity = 2 * pi * dens in
       bindE (normalizeGofr cfg env TwoPiDensity acc) (\<lambda>acc.
       bindE (averageGofr cfg (gofr acc)) (\<lambda>avg.
         let g = snd avg in
         bindE (scanGofr g 0 0) (\<lambda>nhist_min.
           let logG = map (logGofrAt cfg g) [0..<nhist cfg];
               integrand = map (integrandAt cfg g) [0..<nhist cfg]
           in
           bindE (integrate integrand (deltar cfg)) (\<lambda>s.
             Inr \<lparr> l_object = fst avg,
                   l_TwoPiDensity = TwoPiDensity,
                   l_accum = acc,
                   l_gofr = g,
                   l_logGofr = logG,
                   l_nhist_min = nhist_min,
                   l_integrand = integrand,
                   l_pairEntropy = - TwoPiDensity * s \<rparr>))))))"

text \<open>
  The loop \<^verbatim>\<open>for(j=rank; j<getNumberOfAtoms(); j+=stride)\<close> that fills the share
  of \<^verbatim>\<open>deriv\<close> of one process.
\<close>

definition derivLoop :: "PairEntropy \<Rightarrow> Step \<Rightarrow> Locals \<Rightarrow> nat \<Rightarrow> error + Vector list" where
  "derivLoop cfg env l r =
     (let n = getNumberOfAtoms env;
          stride = (if serial cfg then 1 else comm_size env);
          rank = (if serial cfg then 0 else r)
      in foldE (\<lambda>j d.
                  bindE (integrateV
                           (integrandDerivatives cfg (l_accum l) (l_gofr l) (l_logGofr l)
                              (l_nhist_min l) j)
                           (deltar cfg))
                    (\<lambda>v. Inr (d[j := scaleV (- l_TwoPiDensity l) v])))
           (strided rank stride n) (replicate n 0))"

text \<open>The box derivative: the virial of the positions and, under
  \<^verbatim>\<open>if (density_given<0)\<close>, the virial of the volume.\<close>

definition virialOf :: "PairEntropy \<Rightarrow> Locals \<Rightarrow> error + Tensor" where
  "virialOf cfg l =
     bindE (integrateT
              (integrandVirial cfg (l_accum l) (l_gofr l) (l_logGofr l) (l_nhist_min l))
              (deltar cfg)) (\<lambda>vt.
       let vir = scaleT (- l_TwoPiDensity l) vt in
       if density_given cfg < 0 then
         bindE (integrate (integrandVirialVolume cfg (l_gofr l)) (deltar cfg)) (\<lambda>vv.
           Inr (vir + scaleT (- l_TwoPiDensity l * vv) identity))
       else Inr vir)"

text \<open>
  \<^verbatim>\<open>calculate\<close> on the process with rank \<open>r\<close>, up to its own share of
  \<^verbatim>\<open>deriv\<close> (the reduction of \<^verbatim>\<open>deriv\<close> is in \<open>calculate\<close> below).
\<close>

definition calculateLocal :: "PairEntropy \<Rightarrow> Step \<Rightarrow> nat \<Rightarrow> error + PairEntropy \<times> Output" where
  "calculateLocal cfg env r =
     bindE (valueStage cfg env r) (\<lambda>l.
       if doNotCalculateDerivatives env then
         Inr (l_object l, \<lparr> pairEntropy = l_pairEntropy l,
                             deriv = replicate (getNumberOfAtoms env) 0,
                             virial = 0 \<rparr>)
       else
         bindE (derivLoop cfg env l r) (\<lambda>d.
         bindE (virialOf cfg l) (\<lambda>vir.
           Inr (l_object l, \<lparr> pairEntropy = l_pairEntropy l, deriv = d, virial = vir \<rparr>))))"

text \<open>
  One call of \<^verbatim>\<open>calculate\<close> as the process \<open>comm_rank\<close> sees it: the updated
  object and the reported quantities. \<^verbatim>\<open>comm.Sum(&deriv[0][0],3*getNumberOfAtoms())\<close>
  sums the \<^verbatim>\<open>deriv\<close> arrays of all processes; the source performs it whenever
  derivatives are computed, in serial mode too.
\<close>

definition calculate :: "PairEntropy \<Rightarrow> Step \<Rightarrow> error + PairEntropy \<times> Output" where
  "calculate cfg env =
     bindE (calculateLocal cfg env (comm_rank env)) (\<lambda>res.
       if doNotCalculateDerivatives env then Inr res
       else
         bindE (allRanks (map (calculateLocal cfg env) [0..<comm_size env])) (\<lambda>all.
           Inr (fst res,
                (snd res)\<lparr> deriv := comm_Sum (getNumberOfAtoms env)
                                       (map (\<lambda>x. deriv (snd x)) all) \<rparr>)))"

text \<open>\<open>k\<close> consecutive steps whose normalised g(r) is the same array \<open>g\<close>: the
  averaging stage of each, on the object the previous one left.\<close>

fun averageSteps :: "nat \<Rightarrow> PairEntropy \<Rightarrow> real list \<Rightarrow> error + PairEntropy" where
  "averageSteps 0 cfg g = Inr cfg"
| "averageSteps (Suc k) cfg g = bindE (averageGofr cfg g) (\<lambda>avg. averageSteps k (fst avg) g)"

subsection \<open>Notions used in the proofs\<close>

text \<open>The three arrays have \<open>h\<close> bins and every row of \<^verbatim>\<open>gofrPrime\<close> has \<open>n\<close> atoms.\<close>

definition dims :: "nat \<Rightarrow> nat \<Rightarrow> accum \<Rightarrow> bool" where
  "dims h n acc =
     (length (gofr acc) = h \<and> length (gofrPrime acc) = h
      \<and> list_all (\<lambda>row. length row = n) (gofrPrime acc) \<and> length (gofrVirial acc) = h)"

text \<open>The arrays as \<^verbatim>\<open>calculate\<close> allocates them.\<close>

definition zeroAccum :: "nat \<Rightarrow> nat \<Rightarrow> accum" where
  "zeroAccum h n =
     \<lparr> gofr = replicate h 0, gofrPrime = replicate h (replicate n 0), gofrVirial = replicate h 0 \<rparr>"

text \<open>For every bin, the sum over the atoms of the entries of \<^verbatim>\<open>gofrPrime\<close>.\<close>

definition rowSums :: "accum \<Rightarrow> Vector list" where
  "rowSums acc = map sum_list (gofrPrime acc)"

text \<open>The arrays have the right sizes and every row of \<^verbatim>\<open>gofrPrime\<close> sums to zero.\<close>

definition balanced :: "nat \<Rightarrow> nat \<Rightarrow> accum \<Rightarrow> bool" where
  "balanced h n acc = (dims h n acc \<and> rowSums acc = replicate h 0)"

text \<open>The weighted sum of the vector integrator, before the multiplication by the spacing.\<close>

definition trapezoidV :: "Vector list \<Rightarrow> Vector" where
  "trapezoidV vs =
     (\<Sum>i = 1..<length vs - 1. vs ! i) + scaleV 0.5 (vs ! 0) + scaleV 0.5 (vs ! (length vs - 1))"

text \<open>The value the derivative loop stores in \<^verbatim>\<open>deriv[j]\<close>.\<close>

definition atomDeriv :: "PairEntropy \<Rightarrow> Locals \<Rightarrow> nat \<Rightarrow> Vector" where
  "atomDeriv cfg l j =
     scaleV (- l_TwoPiDensity l)
       (scaleV (deltar cfg)
          (trapezoidV (integrandDerivatives cfg (l_accum l) (l_gofr l) (l_logGofr l)
                         (l_nhist_min l) j)))"

text \<open>The weighted sum of the scalar integrator.\<close>

definition trapezoid :: "real list \<Rightarrow> real" where
  "trapezoid xs = (\<Sum>i = 1..<length xs - 1. xs ! i) + 0.5 * xs ! 0 + 0.5 * xs ! (length xs - 1)"

text \<open>The weighted sum of the tensor integrator.\<close>

definition trapezoidT :: "Tensor list \<Rightarrow> Tensor" where
  "trapezoidT ts =
     (\<Sum>i = 1..<length ts - 1. ts ! i) + scaleT 0.5 (ts ! 0) + scaleT 0.5 (ts ! (length ts - 1))"

text \<open>The virial of the positions: \<^verbatim>\<open>-TwoPiDensity*integrate(integrandVirial,deltar)\<close>.\<close>

definition positionVirial :: "PairEntropy \<Rightarrow> Locals \<Rightarrow> Tensor" where
  "positionVirial cfg l =
     scaleT (- l_TwoPiDensity l)
       (scaleT (deltar cfg)
          (trapezoidT (integrandVirial cfg (l_accum l) (l_gofr l) (l_logGofr l) (l_nhist_min l))))"

text \<open>The virial of the volume: \<^verbatim>\<open>-TwoPiDensity*integrate(integrandVirialVolume,deltar)*Tensor::identity()\<close>.\<close>

definition volumeVirial :: "PairEntropy \<Rightarrow> Locals \<Rightarrow> Tensor" where
  "volumeVirial cfg l =
     scaleT (- l_TwoPiDensity l * (trapezoid (integrandVirialVolume cfg (l_gofr l)) * deltar cfg))
       identity"

text \<open>The two halves of \<open>addPair\<close>: whether the body fails on a pair,\<close>

definition pairError :: "PairEntropy \<Rightarrow> Step \<Rightarrow> nat \<times> nat \<Rightarrow> error option" where
  "pairError cfg env p =
    (let i0 = fst p; i1 = snd p in
     if i0 < getNumberOfAtoms env \<and> i1 < getNumberOfAtoms env then
       if getAbsoluteIndex env i0 = getAbsoluteIndex env i1 then None
       else
         let distance =
               (if pbc cfg then pbcDistance env (getPosition env i0) (getPosition env i1)
                else delta (getPosition env i0) (getPosition env i1))
         in
         case withinCutoff cfg distance of
           None \<Rightarrow> None
         | Some d2 \<Rightarrow> if sqrt d2 = 0 then Some NonFinite else None
     else Some OutOfBounds)"

text \<open>and what it adds to the arrays when it does not.\<close>

definition pairAdd :: "PairEntropy \<Rightarrow> Step \<Rightarrow> nat \<times> nat \<Rightarrow> accum \<Rightarrow> accum" where
  "pairAdd cfg env p acc =
    (let i0 = fst p; i1 = snd p in
     if getAbsoluteIndex env i0 = getAbsoluteIndex env i1 then acc
     else
       let distance =
             (if pbc cfg then pbcDistance env (getPosition env i0) (getPosition env i1)
              else delta (getPosition env i0) (getPosition env i1))
       in
       case withinCutoff cfg distance of
         None \<Rightarrow> acc
       | Some d2 \<Rightarrow>
           let distanceModulo = sqrt d2;
               distance_versor = divV distance distanceModulo;
               bins = binRange cfg distanceModulo
           in fold (addBin cfg i0 i1 distance distanceModulo distance_versor)
                (map nat [fst bins..snd bins]) acc)"

text \<open>The pairs the all-pairs loops of one process visit, in order.\<close>

definition rankPairs :: "nat \<Rightarrow> nat \<Rightarrow> nat \<Rightarrow> (nat \<times> nat) list" where
  "rankPairs n rank stride =
     concat (map (\<lambda>i. map (Pair i) [i + 1..<n]) (strided rank stride (n - 1)))"

subsection \<open>Example inputs\<close>

text \<open>The input of the documentation of PAIRENTROPY (atoms 1-250, MAXR=0.65, SIGMA=0.025,
  NHIST=100, NLIST with NL_CUTOFF=0.75 and NL_STRIDE=10).\<close>

definition documentedOptions :: ActionOptions where
  "documentedOptions =
     \<lparr> SERIAL = False, GROUPA = [1..<251], NOPBC = False, PAIR = False, NLIST = True,
       NL_CUTOFF = Some 0.75, NL_STRIDE = Some 10, DENSITY = None,
       MAXR = 0.65, NHIST = 100, SIGMA' = 0.025,
       OUTPUT_GOFR = False, OUTPUT_INTEGRAND = False, OUTPUT_STRIDE = None,
       REFERENCE_GOFR = None, AVERAGE_GOFR = False \<rparr>"


text \<open>A small input: MAXR=1, SIGMA=1, NHIST=2, DENSITY=1, NOPBC, two atoms; the object the
  constructor builds from it; and a step with the two atoms at distance 5, beyond the
  cutoff \<open>maxr + 3*sigma = 4\<close>, on one process.\<close>

definition smallOptions :: ActionOptions where
  "smallOptions =
     \<lparr> SERIAL = False, GROUPA = [0, 1], NOPBC = True, PAIR = False, NLIST = False,
       NL_CUTOFF = None, NL_STRIDE = None, DENSITY = Some 1,
       MAXR = 1, NHIST = 2, SIGMA' = 1,
       OUTPUT_GOFR = False, OUTPUT_INTEGRAND = False, OUTPUT_STRIDE = None,
       REFERENCE_GOFR = None, AVERAGE_GOFR = False \<rparr>"

definition smallObject :: PairEntropy where
  "smallObject =
     \<lparr> pbc = False, serial = False, doneigh = False, ga_lista = [0, 1],
       doOutputGofr = False, doOutputIntegrand = False, outputStride = 1,
       maxr = 1, sigma = 1, nhist = 2, rcut2 = 16,
       invSqrt2piSigma = 1 / (sqrt (2 * pi) * 1), sigmaSqr2 = 2, sigmaSqr = 1,
       deltar = 1, deltaBin = 3, density_given = 1,
       vectorX = [0, 1], vectorX2 = [0, 1],
       doReferenceGofr = False, referenceGofr = [],
       doAverageGofr = False, avgGofr = [], iteration = 0 \<rparr>"

definition farStep :: Step where
  "farStep =
     \<lparr> atoms = [(0, Vector 0 0 0), (1, Vector 5 0 0)],
       box = identity,
       pbcDistance = delta,
       closePairs = (\<lambda>r. []),
       comm_size = 1, comm_rank = 0,
       doNotCalculateDerivatives = False \<rparr>"


text \<open>The small object with AVERAGE_GOFR, as the constructor leaves it.\<close>

definition averagingObject :: PairEntropy where
  "averagingObject = smallObject\<lparr> doAverageGofr := True, avgGofr := [0, 0], iteration := 1 \<rparr>"

text \<open>A step with the two atoms at distance 1/2, inside the cutoff, on one process.\<close>

definition nearStep :: Step where
  "nearStep =
     \<lparr> atoms = [(0, Vector 0 0 0), (1, Vector (1 / 2) 0 0)],
       box = identity,
       pbcDistance = delta,
       closePairs = (\<lambda>r. []),
       comm_size = 1, comm_rank = 0,
       doNotCalculateDerivatives = False \<rparr>"

text \<open>The value of \<^verbatim>\<open>kernel\<close> for that pair at both bins (at distance 1/2 from
  \<open>x = 0\<close> and from \<open>x = 1\<close>, with \<open>sigma = 1\<close>).\<close>

definition kernelHalf :: real where
  "kernelHalf = 1 / sqrt (2 * pi) * exp (- (1 / 8))"

text \<open>The arrays the pair loops leave on that step, and the arrays after the normalisation
  with the density \<open>rho\<close>.\<close>

definition nearAccum :: accum where
  "nearAccum =
     \<lparr> gofr = [kernelHalf, kernelHalf],
       gofrPrime = [[Vector (kernelHalf / 2) 0 0, Vector (- kernelHalf / 2) 0 0],
                    [Vector (- kernelHalf / 2) 0 0, Vector (kernelHalf / 2) 0 0]],
       gofrVirial = [Tensor (kernelHalf / 4) 0 0 0 0 0 0 0 0,
                     Tensor (- kernelHalf / 4) 0 0 0 0 0 0 0 0] \<rparr>"

definition nearNormalized :: "real \<Rightarrow> accum" where
  "nearNormalized rho =
     \<lparr> gofr = [kernelHalf, kernelHalf / (4 * pi * rho)],
       gofrPrime = [[Vector (kernelHalf / 2) 0 0, Vector (- kernelHalf / 2) 0 0],
                    [Vector (- kernelHalf / 2 / (4 * pi * rho)) 0 0,
                     Vector (kernelHalf / 2 / (4 * pi * rho)) 0 0]],
       gofrVirial = [Tensor (kernelHalf / 4) 0 0 0 0 0 0 0 0,
                     Tensor (- kernelHalf / 4 / (4 * pi * rho)) 0 0 0 0 0 0 0 0] \<rparr>"

text \<open>The intermediate quantities of \<^verbatim>\<open>calculate\<close> on that step.\<close>

definition nearLocals :: "PairEntropy \<Rightarrow> real \<Rightarrow> Locals" where
  "nearLocals cfg rho =
     \<lparr> l_object = cfg,
       l_TwoPiDensity = 2 * pi * rho,
       l_accum = nearNormalized rho,
       l_gofr = [kernelHalf, kernelHalf / (4 * pi * rho)],
       l_logGofr = [ln kernelHalf, ln (kernelHalf / (4 * pi * rho))],
       l_nhist_min = 0,
       l_integrand = [0, kernelHalf / (4 * pi * rho) * ln (kernelHalf / (4 * pi * rho))
                          - kernelHalf / (4 * pi * rho) + 1],
       l_pairEntropy = - (2 * pi * rho)
          * ((kernelHalf / (4 * pi * rho) * ln (kernelHalf / (4 * pi * rho))
                          - kernelHalf / (4 * pi * rho) + 1) / 2) \<rparr>"

text \<open>The quantities reported on that step: the x-component of the derivative of atom 0,
  the pair entropy, and the virial of the volume.\<close>

definition nearGradient :: "real \<Rightarrow> real" where
  "nearGradient rho = kernelHalf * ln (kernelHalf / (4 * pi * rho)) / 8"

definition nearEntropy :: "real \<Rightarrow> real" where
  "nearEntropy rho =
     - (2 * pi * rho)
       * ((kernelHalf / (4 * pi * rho) * ln (kernelHalf / (4 * pi * rho))
            - kernelHalf / (4 * pi * rho) + 1) / 2)"

definition nearVolumeVirial :: "real \<Rightarrow> Tensor" where
  "nearVolumeVirial rho =
     scaleT (- (2 * pi * rho) * ((1 - kernelHalf / (4 * pi * rho)) / 2)) identity"

text \<open>The squared length of a vector and the dot product of two.\<close>

definition modulo2 :: "Vector \<Rightarrow> real" where
  "modulo2 v = vx v * vx v + vy v * vy v + vz v * vz v"

definition dotProduct :: "Vector \<Rightarrow> Vector \<Rightarrow> real" where
  "dotProduct a b = vx a * vx b + vy a * vy b + vz a * vz b"

text \<open>The step with the position of the atom with local index \<open>k\<close> replaced, and the
  value \<^verbatim>\<open>setValue\<close> receives in a call (zero, arbitrarily, when the call fails).\<close>

definition moveAtom :: "Step \<Rightarrow> nat \<Rightarrow> Vector \<Rightarrow> Step" where
  "moveAtom env k p = env\<lparr>atoms := (atoms env)[k := (fst (atoms env ! k), p)]\<rparr>"

definition reportedEntropy :: "error + PairEntropy \<times> Output \<Rightarrow> real" where
  "reportedEntropy res = (case res of Inl e \<Rightarrow> 0 | Inr r \<Rightarrow> pairEntropy (snd r))"

text \<open>The step of the two atoms at the positions \<open>a\<close> and \<open>b\<close>; bin 1 of the
  normalised g(r) and the pair entropy of the small object when their distance is
  \<open>d\<close>, below the bin width; the squared distance when one of the atoms half a unit
  apart is displaced by \<open>t\<close> along \<open>h\<close> (\<open>s = 1\<close> for atom 1, \<open>s = -1\<close> for atom 0).\<close>

definition twoAtoms :: "Vector \<Rightarrow> Vector \<Rightarrow> Step" where
  "twoAtoms a b = nearStep\<lparr>atoms := [(0, a), (1, b)]\<rparr>"

definition binOne :: "real \<Rightarrow> real" where
  "binOne d = fst (kernel' smallObject (1 - d)) / (4 * pi)"

definition twoAtomsEntropy :: "real \<Rightarrow> real" where
  "twoAtomsEntropy d = - (2 * pi) * ((binOne d * ln (binOne d) - binOne d + 1) / 2)"

definition slide2 :: "real \<Rightarrow> Vector \<Rightarrow> real \<Rightarrow> real" where
  "slide2 s h t = (1 / 2 + s * t * vx h) * (1 / 2 + s * t * vx h)
                  + (s * t * vy h) * (s * t * vy h) + (s * t * vz h) * (s * t * vz h)"

text \<open>A step with the two atoms at the same position.\<close>

definition coincidentStep :: Step where
  "coincidentStep =
     \<lparr> atoms = [(0, Vector 0 0 0), (1, Vector 0 0 0)],
       box = identity,
       pbcDistance = delta,
       closePairs = (\<lambda>r. []),
       comm_size = 1, comm_rank = 0,
       doNotCalculateDerivatives = False \<rparr>"

section \<open>Properties\<close>

subsection \<open>The trapezoid rule\<close>

lemma fold_plus_sum:
  fixes f :: "nat \<Rightarrow> 'a::comm_monoid_add"
  shows "fold (\<lambda>i r. r + f i) [a..<b] z = z + (\<Sum>i = a..<b. f i)"
proof (induction b)
  case 0
  show ?case by simp
next
  case (Suc b)
  show ?case
  proof (cases "a \<le> b")
    case True
    then show ?thesis using Suc by (simp add: add.assoc)
  next
    case False
    then show ?thesis by simp
  qed
qed

lemma integrate_eq:
  "xs \<noteq> [] \<Longrightarrow> integrate xs d =
     Inr (d * ((\<Sum>i = 1..<length xs - 1. xs ! i) + 0.5 * xs ! 0 + 0.5 * xs ! (length xs - 1)))"
  by (simp add: integrate_def Let_def fold_plus_sum)

lemma integrateV_eq:
  "vs \<noteq> [] \<Longrightarrow> integrateV vs d =
     Inr (scaleV d ((\<Sum>i = 1..<length vs - 1. vs ! i) + scaleV 0.5 (vs ! 0)
                     + scaleV 0.5 (vs ! (length vs - 1))))"
  by (simp add: integrateV_def Let_def fold_plus_sum)

lemma integrateT_eq:
  "ts \<noteq> [] \<Longrightarrow> integrateT ts d =
     Inr (scaleT d ((\<Sum>i = 1..<length ts - 1. ts ! i) + scaleT 0.5 (ts ! 0)
                     + scaleT 0.5 (ts ! (length ts - 1))))"
  by (simp add: integrateT_def Let_def fold_plus_sum)

lemma vx_sum: "vx (sum f A) = (\<Sum>i\<in>A. vx (f i))"
  by (induction A rule: infinite_finite_induct) (simp_all add: zero_Vector_def plus_Vector_def)
lemma vy_sum: "vy (sum f A) = (\<Sum>i\<in>A. vy (f i))"
  by (induction A rule: infinite_finite_induct) (simp_all add: zero_Vector_def plus_Vector_def)
lemma vz_sum: "vz (sum f A) = (\<Sum>i\<in>A. vz (f i))"
  by (induction A rule: infinite_finite_induct) (simp_all add: zero_Vector_def plus_Vector_def)

lemma sum_nth_map:
  fixes h :: "'b \<Rightarrow> 'a::comm_monoid_add"
  shows "b \<le> length xs \<Longrightarrow> (\<Sum>i = a..<b. map h xs ! i) = (\<Sum>i = a..<b. h (xs ! i))"
  by (rule sum.cong) simp_all

lemma integrate_const:
  assumes "2 \<le> n"
  shows "integrate (replicate n c) d = Inr (d * (real n - 1) * c)"
proof -
  have ne: "replicate n c \<noteq> []" using assms by auto
  have "(\<Sum>i = 1..<n - 1. replicate n c ! i) = (\<Sum>i = 1..<n - 1. c)"
    by (rule sum.cong) auto
  also have "\<dots> = (real n - 2) * c" using assms by (simp add: of_nat_diff algebra_simps)
  finally have s: "(\<Sum>i = 1..<n - 1. replicate n c ! i) = (real n - 2) * c" .
  have "integrate (replicate n c) d = Inr (d * ((real n - 2) * c + 0.5 * c + 0.5 * c))"
    using assms by (simp add: integrate_eq[OF ne] s del: One_nat_def)
  also have "d * ((real n - 2) * c + 0.5 * c + 0.5 * c) = d * (real n - 1) * c"
    by (simp add: algebra_simps)
  finally show ?thesis .
qed


lemma sum_const_Vector: "finite A \<Longrightarrow> (\<Sum>i\<in>A. v) = scaleV (real (card A)) (v::Vector)"
  by (induction A rule: finite_induct)
     (simp_all add: zero_Vector_def plus_Vector_def scaleV_def algebra_simps)

lemma sum_const_Tensor: "finite A \<Longrightarrow> (\<Sum>i\<in>A. t) = scaleT (real (card A)) (t::Tensor)"
  by (induction A rule: finite_induct)
     (simp_all add: zero_Tensor_def plus_Tensor_def scaleT_def algebra_simps)

lemma integrateV_const:
  assumes "2 \<le> n"
  shows "integrateV (replicate n v) d = Inr (scaleV (d * (real n - 1)) v)"
proof -
  have ne: "replicate n v \<noteq> []" using assms by auto
  have "(\<Sum>i = 1..<n - 1. replicate n v ! i) = (\<Sum>i = 1..<n - 1. v)"
    by (rule sum.cong) auto
  also have "\<dots> = scaleV (real n - 2) v" using assms by (simp add: sum_const_Vector of_nat_diff)
  finally have s: "(\<Sum>i = 1..<n - 1. replicate n v ! i) = scaleV (real n - 2) v" .
  have "integrateV (replicate n v) d
          = Inr (scaleV d (scaleV (real n - 2) v + scaleV 0.5 v + scaleV 0.5 v))"
    using assms by (simp add: integrateV_eq[OF ne] s del: One_nat_def)
  also have "scaleV d (scaleV (real n - 2) v + scaleV 0.5 v + scaleV 0.5 v)
               = scaleV (d * (real n - 1)) v"
    by (simp add: scaleV_def plus_Vector_def algebra_simps)
  finally show ?thesis .
qed

lemma integrateT_const:
  assumes "2 \<le> n"
  shows "integrateT (replicate n t) d = Inr (scaleT (d * (real n - 1)) t)"
proof -
  have ne: "replicate n t \<noteq> []" using assms by auto
  have "(\<Sum>i = 1..<n - 1. replicate n t ! i) = (\<Sum>i = 1..<n - 1. t)"
    by (rule sum.cong) auto
  also have "\<dots> = scaleT (real n - 2) t" using assms by (simp add: sum_const_Tensor of_nat_diff)
  finally have s: "(\<Sum>i = 1..<n - 1. replicate n t ! i) = scaleT (real n - 2) t" .
  have "integrateT (replicate n t) d
          = Inr (scaleT d (scaleT (real n - 2) t + scaleT 0.5 t + scaleT 0.5 t))"
    using assms by (simp add: integrateT_eq[OF ne] s del: One_nat_def)
  also have "scaleT d (scaleT (real n - 2) t + scaleT 0.5 t + scaleT 0.5 t)
               = scaleT (d * (real n - 1)) t"
    by (simp add: scaleT_def plus_Tensor_def algebra_simps)
  finally show ?thesis .
qed

lemma tensor_sel_sum:
  "t00 (sum f A) = (\<Sum>i\<in>A. t00 (f i))" "t01 (sum f A) = (\<Sum>i\<in>A. t01 (f i))"
  "t02 (sum f A) = (\<Sum>i\<in>A. t02 (f i))" "t10 (sum f A) = (\<Sum>i\<in>A. t10 (f i))"
  "t11 (sum f A) = (\<Sum>i\<in>A. t11 (f i))" "t12 (sum f A) = (\<Sum>i\<in>A. t12 (f i))"
  "t20 (sum f A) = (\<Sum>i\<in>A. t20 (f i))" "t21 (sum f A) = (\<Sum>i\<in>A. t21 (f i))"
  "t22 (sum f A) = (\<Sum>i\<in>A. t22 (f i))"
  by (induction A rule: infinite_finite_induct; simp add: zero_Tensor_def plus_Tensor_def)+

lemma integrateV_component:
  assumes "sel = vx \<or> sel = vy \<or> sel = vz"
  shows "map_sum id sel (integrateV vs d) = integrate (map sel vs) d"
proof (cases "vs = []")
  case True
  then show ?thesis by (simp add: integrateV_def integrate_def)
next
  case False
  then have "length vs - Suc 0 < length vs" by (cases vs) auto
  with False assms show ?thesis
    by (auto simp add: integrateV_eq integrate_eq scaleV_def plus_Vector_def vx_sum vy_sum vz_sum
        sum_nth_map algebra_simps)
qed

lemma integrateT_component:
  assumes "sel \<in> {t00, t01, t02, t10, t11, t12, t20, t21, t22}"
  shows "map_sum id sel (integrateT ts d) = integrate (map sel ts) d"
proof (cases "ts = []")
  case True
  then show ?thesis by (simp add: integrateT_def integrate_def)
next
  case False
  then have "length ts - Suc 0 < length ts" by (cases ts) auto
  with False assms show ?thesis
    by (auto simp add: integrateT_eq integrate_eq scaleT_def plus_Tensor_def tensor_sel_sum
        sum_nth_map algebra_simps)
qed

text \<open>
  Claim C3. On a sample sequence of length \<open>n \<ge> 1\<close> with spacing \<open>d\<close> each of
  the three overloads returns \<open>d * (\<Sum>i=1..n-2. sample[i] + 0.5*sample[0] +
  0.5*sample[n-1])\<close>; each is a function of its arguments only; and every component of
  the vector and of the tensor result is the scalar overload applied to that component of
  the samples. (The formula reads \<open>sample[0]\<close>: the sequence is not empty.)
\<close>

theorem integrate_trapezoid:
  assumes "xs \<noteq> []" and "vs \<noteq> []" and "ts \<noteq> []"
  shows "integrate xs d =
           Inr (d * ((\<Sum>i = 1..<length xs - 1. xs ! i)
                      + 0.5 * xs ! 0 + 0.5 * xs ! (length xs - 1)))
       \<and> integrateV vs d =
           Inr (scaleV d ((\<Sum>i = 1..<length vs - 1. vs ! i)
                      + scaleV 0.5 (vs ! 0) + scaleV 0.5 (vs ! (length vs - 1))))
       \<and> integrateT ts d =
           Inr (scaleT d ((\<Sum>i = 1..<length ts - 1. ts ! i)
                      + scaleT 0.5 (ts ! 0) + scaleT 0.5 (ts ! (length ts - 1))))
       \<and> map_sum id vx (integrateV vs d) = integrate (map vx vs) d
       \<and> map_sum id vy (integrateV vs d) = integrate (map vy vs) d
       \<and> map_sum id vz (integrateV vs d) = integrate (map vz vs) d
       \<and> map_sum id t00 (integrateT ts d) = integrate (map t00 ts) d
       \<and> map_sum id t01 (integrateT ts d) = integrate (map t01 ts) d
       \<and> map_sum id t02 (integrateT ts d) = integrate (map t02 ts) d
       \<and> map_sum id t10 (integrateT ts d) = integrate (map t10 ts) d
       \<and> map_sum id t11 (integrateT ts d) = integrate (map t11 ts) d
       \<and> map_sum id t12 (integrateT ts d) = integrate (map t12 ts) d
       \<and> map_sum id t20 (integrateT ts d) = integrate (map t20 ts) d
       \<and> map_sum id t21 (integrateT ts d) = integrate (map t21 ts) d
       \<and> map_sum id t22 (integrateT ts d) = integrate (map t22 ts) d"
proof -
  have v: "map_sum id sel (integrateV vs d) = integrate (map sel vs) d"
    if "sel = vx \<or> sel = vy \<or> sel = vz" for sel
    using that by (rule integrateV_component)
  have t: "map_sum id sel (integrateT ts d) = integrate (map sel ts) d"
    if "sel \<in> {t00, t01, t02, t10, t11, t12, t20, t21, t22}" for sel
    using that by (rule integrateT_component)
  show ?thesis
    using integrate_eq[OF assms(1), of d] integrateV_eq[OF assms(2), of d]
      integrateT_eq[OF assms(3), of d]
      v[of vx] v[of vy] v[of vz]
      t[of t00] t[of t01] t[of t02] t[of t10] t[of t11] t[of t12] t[of t20] t[of t21] t[of t22]
    by blast
qed

theorem integrate_trapezoid_witness:
  "[1, 2, 3, 4 :: real] \<noteq> []
   \<and> integrate [1, 2, 3, 4] 2 = Inr 15
   \<and> integrateV [Vector 1 0 2, Vector 3 1 0, Vector 5 0 4] 2 = Inr (Vector 12 2 6)
   \<and> integrateT [identity, identity] 2 = Inr (scaleT 2 identity)
   \<and> map_sum id vx (integrateV [Vector 1 0 2, Vector 3 1 0, Vector 5 0 4] 2)
       = integrate [1, 3, 5] 2"
  using integrate_trapezoid [of "[1, 2, 3, 4]" "[Vector 1 0 2, Vector 3 1 0, Vector 5 0 4]"
      "[identity, identity]" 2]
  by (simp add: scaleV_def scaleT_def plus_Vector_def plus_Tensor_def identity_def
      zero_Vector_def zero_Tensor_def numeral_eq_Suc sum.atLeast_Suc_lessThan integrate_def)

lemma integrate_single:
  "integrate [c] d = Inr (d * c)"
  "integrateV [v] d = Inr (scaleV d v)"
  "integrateT [t] d = Inr (scaleT d t)"
  by (simp_all add: integrate_def integrateV_def integrateT_def scaleV_def scaleT_def
      plus_Vector_def plus_Tensor_def zero_Vector_def zero_Tensor_def algebra_simps)

text \<open>
  Claim C7, amended, over exact real arithmetic (in doubles the two sides agree up to
  rounding only). For every length \<open>n \<ge> 2\<close>, every constant and every spacing
  \<open>d\<close>, each trapezoid integrator on \<open>n\<close> copies of the constant returns
  \<open>d * (n - 1)\<close> times the constant. For \<open>n = 1\<close> the single sample is both end
  points and the code returns \<open>d\<close> times the constant, not zero.
\<close>

theorem integrate_constant:
  "(2 \<le> n \<longrightarrow>
       integrate (replicate n c) d = Inr (d * (real n - 1) * c)
     \<and> integrateV (replicate n v) d = Inr (scaleV (d * (real n - 1)) v)
     \<and> integrateT (replicate n t) d = Inr (scaleT (d * (real n - 1)) t))
   \<and> integrate (replicate 1 c) d = Inr (d * c)
   \<and> integrateV (replicate 1 v) d = Inr (scaleV d v)
   \<and> integrateT (replicate 1 t) d = Inr (scaleT d t)"
  by (simp add: integrate_const integrateV_const integrateT_const integrate_single)

theorem integrate_constant_witness:
  "(2::nat) \<le> 5 \<and> integrate (replicate 5 3) 2 = Inr 24
   \<and> integrateV (replicate 5 (Vector 1 2 3)) 2 = Inr (Vector 8 16 24)
   \<and> integrateT (replicate 5 identity) 2 = Inr (scaleT 8 identity)
   \<and> integrate (replicate 1 3) 2 = Inr 6
   \<and> integrateV (replicate 1 (Vector 1 2 3)) 2 = Inr (Vector 2 4 6)
   \<and> integrateT (replicate 1 identity) 2 = Inr (scaleT 2 identity)"
  using integrate_constant [of 5 3 2 "Vector 1 2 3" identity]
  by (simp add: scaleV_def)

theorem integrate_constant_counterexample:
  "\<not> (\<forall>n c d. 1 \<le> n \<longrightarrow> integrate (replicate n c) d = Inr (d * (real n - 1) * c))"
proof
  assume "\<forall>n c d. 1 \<le> n \<longrightarrow> integrate (replicate n c) d = Inr (d * (real n - 1) * c)"
  then have "integrate (replicate 1 1) 1 = Inr (1 * (real 1 - 1) * 1)" by blast
  then show False by (simp add: integrate_def)
qed

subsection \<open>The constructor\<close>

lemma ctor_stride_error:
  assumes "(\<exists>s. OUTPUT_STRIDE ao = Some s \<and> s \<noteq> 1 \<and> \<not> OUTPUT_GOFR ao \<and> \<not> OUTPUT_INTEGRAND ao)
           \<or> OUTPUT_STRIDE ao = Some 0"
  shows "\<exists>msg. PairEntropy_ctor ao = Inl (ConfigError msg)"
  using assms by (auto simp add: PairEntropy_ctor_def Let_def parse_def)

lemma ctor_stride_error_msg:
  assumes "(\<exists>s. OUTPUT_STRIDE ao = Some s \<and> s \<noteq> 1 \<and> \<not> OUTPUT_GOFR ao \<and> \<not> OUTPUT_INTEGRAND ao)
           \<or> OUTPUT_STRIDE ao = Some 0"
    and "\<not> NLIST ao"
  shows "PairEntropy_ctor ao = Inl (ConfigError
           (if \<not> OUTPUT_GOFR ao \<and> \<not> OUTPUT_INTEGRAND ao
            then ''Cannot specify OUTPUT_STRIDE if OUTPUT_GOFR or OUTPUT_INTEGRAND not used''
            else ''The output stride specified with OUTPUT_STRIDE must be greater than or equal to one.''))"
  using assms by (auto simp add: PairEntropy_ctor_def Let_def parse_def)


text \<open>
  Claim C8, amended. If OUTPUT_STRIDE is given with a value other than 1 while neither
  OUTPUT_GOFR nor OUTPUT_INTEGRAND is set, or if OUTPUT_STRIDE is given as 0 (the only
  unsigned value below 1), the constructor ends in \<^verbatim>\<open>error(...)\<close>: no object is
  built and no step runs. Without NLIST (whose checks come first) the message is the
  one of the OUTPUT_STRIDE check that fires. The constructor tests the value, not the
  presence of the keyword: OUTPUT_STRIDE=1 without an output flag is accepted.
\<close>

theorem output_stride_rejected:
  assumes "(\<exists>s. OUTPUT_STRIDE ao = Some s \<and> s \<noteq> 1 \<and> \<not> OUTPUT_GOFR ao \<and> \<not> OUTPUT_INTEGRAND ao)
           \<or> OUTPUT_STRIDE ao = Some 0"
  shows "(\<exists>msg. PairEntropy_ctor ao = Inl (ConfigError msg))
       \<and> (\<not> NLIST ao \<longrightarrow>
           PairEntropy_ctor ao = Inl (ConfigError
             (if \<not> OUTPUT_GOFR ao \<and> \<not> OUTPUT_INTEGRAND ao
              then ''Cannot specify OUTPUT_STRIDE if OUTPUT_GOFR or OUTPUT_INTEGRAND not used''
              else ''The output stride specified with OUTPUT_STRIDE must be greater than or equal to one.'')))"
  using ctor_stride_error [OF assms] ctor_stride_error_msg [OF assms] by blast

theorem output_stride_rejected_witness:
  "OUTPUT_STRIDE (smallOptions\<lparr>OUTPUT_STRIDE := Some 5\<rparr>) = Some 5
   \<and> \<not> OUTPUT_GOFR (smallOptions\<lparr>OUTPUT_STRIDE := Some 5\<rparr>)
   \<and> \<not> OUTPUT_INTEGRAND (smallOptions\<lparr>OUTPUT_STRIDE := Some 5\<rparr>)
   \<and> \<not> NLIST (smallOptions\<lparr>OUTPUT_STRIDE := Some 5\<rparr>)
   \<and> PairEntropy_ctor (smallOptions\<lparr>OUTPUT_STRIDE := Some 5\<rparr>) =
       Inl (ConfigError
         ''Cannot specify OUTPUT_STRIDE if OUTPUT_GOFR or OUTPUT_INTEGRAND not used'')
   \<and> PairEntropy_ctor (smallOptions\<lparr>OUTPUT_STRIDE := Some 0, OUTPUT_GOFR := True\<rparr>) =
       Inl (ConfigError
         ''The output stride specified with OUTPUT_STRIDE must be greater than or equal to one.'')"
  using output_stride_rejected [of "smallOptions\<lparr>OUTPUT_STRIDE := Some 5\<rparr>"]
    output_stride_rejected [of "smallOptions\<lparr>OUTPUT_STRIDE := Some 0, OUTPUT_GOFR := True\<rparr>"]
  by (simp add: smallOptions_def)

theorem output_stride_one_accepted:
  "OUTPUT_STRIDE (documentedOptions\<lparr>OUTPUT_STRIDE := Some 1\<rparr>) = Some 1
   \<and> \<not> OUTPUT_GOFR (documentedOptions\<lparr>OUTPUT_STRIDE := Some 1\<rparr>)
   \<and> \<not> OUTPUT_INTEGRAND (documentedOptions\<lparr>OUTPUT_STRIDE := Some 1\<rparr>)
   \<and> (\<exists>cfg. PairEntropy_ctor (documentedOptions\<lparr>OUTPUT_STRIDE := Some 1\<rparr>) = Inr cfg)"
  by (simp add: PairEntropy_ctor_def documentedOptions_def Let_def parse_def)

subsection \<open>The scan for the first non-empty bin\<close>

lemma small_ctor: "PairEntropy_ctor smallOptions = Inr smallObject"
  by (simp add: PairEntropy_ctor_def smallOptions_def smallObject_def Let_def parse_def
      numeral_eq_Suc upt_rec)

lemma strided_eval [simp]: "strided 0 (Suc 0) (Suc 0) = [0]"
  by (simp add: strided.simps [of 0 "Suc 0" "Suc 0"] strided.simps [of "Suc 0" "Suc 0" "Suc 0"])

lemma upt_small: "[0..<1] = [0]" "[0..<2] = [0, 1]" "[1..<2] = [1]" "[1..<1] = []"
  "[Suc 0..<2] = [Suc 0]" "[Suc 0..<Suc 0] = []" "[0..<Suc 0] = [0]"
  by (simp_all add: numeral_eq_Suc upt_rec)

lemma far_accumulate:
  "accumulate smallObject farStep 0 =
     Inr \<lparr> gofr = [0, 0], gofrPrime = [[0, 0], [0, 0]], gofrVirial = [0, 0] \<rparr>"
  by (simp add: accumulate_def smallObject_def farStep_def getNumberOfAtoms_def Let_def
      addPair_def getAbsoluteIndex_def getPosition_def delta_def minus_Vector_def
      withinCutoff_def bindE_def numeral_eq_Suc)

lemma scanGofr_char:
  "scanGofr g j m =
     (if list_all (\<lambda>x. x < threshold) (drop j g) then Inl OutOfBounds
      else Inr (if g ! j < threshold
                then j + length (takeWhile (\<lambda>x. x < threshold) (drop j g)) - 1
                else m))"
proof (induction g j m rule: scanGofr.induct)
  case (1 g j m)
  show ?case
  proof (cases "j < length g")
    case False
    then show ?thesis by (subst scanGofr.simps) simp
  next
    case True
    then have d: "drop j g = g ! j # drop (Suc j) g"
      by (simp add: Cons_nth_drop_Suc)
    show ?thesis
    proof (cases "g ! j < threshold")
      case False
      with True d show ?thesis by (subst scanGofr.simps) simp
    next
      case below: True
      have ih: "scanGofr g (j + 1) j =
         (if list_all (\<lambda>x. x < threshold) (drop (j + 1) g) then Inl OutOfBounds
          else Inr (if g ! (j + 1) < threshold
                then j + 1 + length (takeWhile (\<lambda>x. x < threshold) (drop (j + 1) g)) - 1
                else j))"
        using 1[OF True below] .
      show ?thesis
      proof (cases "list_all (\<lambda>x. x < threshold) (drop (Suc j) g)")
        case True
        with \<open>j < length g\<close> below d ih show ?thesis
          by (subst scanGofr.simps) simp
      next
        case nall: False
        then have lt: "Suc j < length g" by (cases "Suc j < length g") auto
        then have d2: "drop (Suc j) g = g ! Suc j # drop (Suc (Suc j)) g"
          by (simp add: Cons_nth_drop_Suc)
        show ?thesis
          using \<open>j < length g\<close> below nall ih d d2
          by (subst scanGofr.simps) auto
      qed
    qed
  qed
qed

lemma scanGofr_0:
  "scanGofr g 0 0 =
     (if list_all (\<lambda>x. x < threshold) g then Inl OutOfBounds
      else Inr (length (takeWhile (\<lambda>x. x < threshold) g) - 1))"
proof (cases g)
  case Nil
  then show ?thesis by (simp add: scanGofr_char)
next
  case (Cons x xs)
  then show ?thesis by (auto simp add: scanGofr_char)
qed

lemma far_reduce:
  "reduce smallObject farStep 0 =
     Inr \<lparr> gofr = [0, 0], gofrPrime = [[0, 0], [0, 0]], gofrVirial = [0, 0] \<rparr>"
proof -
  have s: "serial smallObject = False" "nhist smallObject = 2"
    "comm_size farStep = 1" "getNumberOfAtoms farStep = 2"
    by (simp_all add: smallObject_def farStep_def getNumberOfAtoms_def)
  show ?thesis
    by (simp add: reduce_def s far_accumulate bindE_def comm_Sum_def upt_small)
qed

lemma far_density: "density smallObject farStep = Inr 1"
  by (simp add: density_def smallObject_def)

lemma far_normalize:
  "normalizeGofr smallObject farStep (2 * pi)
      \<lparr> gofr = [0, 0], gofrPrime = [[0, 0], [0, 0]], gofrVirial = [0, 0] \<rparr> =
     Inr \<lparr> gofr = [0, 0], gofrPrime = [[0, 0], [0, 0]], gofrVirial = [0, 0] \<rparr>"
  by (simp add: normalizeGofr_def normalizeBin_def smallObject_def farStep_def getNumberOfAtoms_def
      bindE_def upt_small divT_def divV_def scaleT_def scaleV_def zero_Tensor_def
      zero_Vector_def)

lemma far_average:
  "averageGofr smallObject [0, 0] = Inr (smallObject, [0, 0])"
  by (simp add: averageGofr_def smallObject_def)

text \<open>
  Claim C9. The scan from bin 0 stays inside the array exactly when some bin of the
  array is at least \<^verbatim>\<open>1.e-10\<close>; when every bin is below, it reads
  \<^verbatim>\<open>gofr[nhist]\<close>. In \<^verbatim>\<open>calculate\<close> the array scanned is the normalised
  (and averaged) g(r): if all its bins are below the threshold the step ends in the
  out-of-bounds read. The witness is a step with no pair within the cutoff.
\<close>

theorem scan_out_of_bounds:
  "(scanGofr g 0 0 = Inl OutOfBounds) = list_all (\<lambda>x. x < threshold) g
   \<and> (\<exists>m. scanGofr g 0 0 = Inr m) = list_ex (\<lambda>x. threshold \<le> x) g
   \<and> (reduce cfg env r = Inr acc \<and> density cfg env = Inr dens
        \<and> normalizeGofr cfg env (2 * pi * dens) acc = Inr acc'
        \<and> averageGofr cfg (gofr acc') = Inr avg
        \<and> list_all (\<lambda>x. x < threshold) (snd avg)
      \<longrightarrow> valueStage cfg env r = Inl OutOfBounds
          \<and> calculateLocal cfg env r = Inl OutOfBounds)"
proof -
  have ex: "list_ex (\<lambda>x. threshold \<le> x) g = (\<not> list_all (\<lambda>x. x < threshold) g)"
    by (induction g) auto
  show ?thesis
    by (auto simp add: scanGofr_0 ex calculateLocal_def valueStage_def bindE_def Let_def)
qed

theorem scan_out_of_bounds_witness:
  "scanGofr [0, 0] 0 0 = Inl OutOfBounds
   \<and> scanGofr [0, 1] 0 0 = Inr 0
   \<and> calculateLocal smallObject farStep 0 = Inl OutOfBounds
   \<and> calculate smallObject farStep = Inl OutOfBounds"
proof -
  have l: "calculateLocal smallObject farStep 0 = Inl OutOfBounds"
    using scan_out_of_bounds [of "[0, 0]" smallObject farStep 0
      "\<lparr>gofr = [0, 0], gofrPrime = [[0, 0], [0, 0]], gofrVirial = [0, 0]\<rparr>" 1
      "\<lparr>gofr = [0, 0], gofrPrime = [[0, 0], [0, 0]], gofrVirial = [0, 0]\<rparr>"
      "(smallObject, [0, 0])"]
    by (simp add: far_reduce far_density far_normalize far_average threshold_def)
  have r: "comm_rank farStep = 0" by (simp add: farStep_def)
  have c: "calculate smallObject farStep = Inl OutOfBounds"
    by (simp add: calculate_def r l bindE_def)
  show ?thesis
    using l c scan_out_of_bounds [of "[0, 0]"] scan_out_of_bounds [of "[0, 1]"]
    by (simp add: threshold_def scanGofr_0)
qed

subsection \<open>The running average\<close>

lemma averageGofr_step:
  assumes "doAverageGofr cfg" and "unat (iteration cfg) \<noteq> 0"
  shows "averageGofr cfg g =
     Inr (cfg\<lparr> avgGofr := map (\<lambda>i. avgGofr cfg ! i
                               + (g ! i - avgGofr cfg ! i) / real (unat (iteration cfg)))
                           [0..<nhist cfg],
                iteration := iteration cfg + 1 \<rparr>,
          map (\<lambda>i. avgGofr cfg ! i + (g ! i - avgGofr cfg ! i) / real (unat (iteration cfg)))
            [0..<nhist cfg])"
  using assms by (simp add: averageGofr_def Let_def)

lemma map_nth_self: "length g = n \<Longrightarrow> map (\<lambda>i. g ! i) [0..<n] = g"
  by (auto simp add: list_eq_iff_nth_eq)

lemma average_first:
  assumes "doAverageGofr cfg" and "iteration cfg = 1" and "avgGofr cfg = replicate (nhist cfg) 0"
    and "length g = nhist cfg"
  shows "averageGofr cfg g = Inr (cfg\<lparr> avgGofr := g, iteration := 2 \<rparr>, g)"
proof -
  have "map (\<lambda>i. avgGofr cfg ! i + (g ! i - avgGofr cfg ! i) / real (unat (iteration cfg)))
          [0..<nhist cfg] = map (\<lambda>i. g ! i) [0..<nhist cfg]"
    using assms by (intro map_cong) simp_all
  also have "\<dots> = g" using assms(4) by (rule map_nth_self)
  finally have m: "map (\<lambda>i. avgGofr cfg ! i
      + (g ! i - avgGofr cfg ! i) / real (unat (iteration cfg))) [0..<nhist cfg] = g" .
  have nz: "unat (iteration cfg) \<noteq> 0" using assms(2) by simp
  show ?thesis unfolding averageGofr_step [OF assms(1) nz] m using assms(2) by simp
qed

lemma average_same:
  assumes "doAverageGofr cfg" and "unat (iteration cfg) \<noteq> 0" and "avgGofr cfg = g"
    and "length g = nhist cfg"
  shows "averageGofr cfg g = Inr (cfg\<lparr> iteration := iteration cfg + 1 \<rparr>, g)"
proof -
  have "map (\<lambda>i. avgGofr cfg ! i + (g ! i - avgGofr cfg ! i) / real (unat (iteration cfg)))
          [0..<nhist cfg] = map (\<lambda>i. g ! i) [0..<nhist cfg]"
    using assms by (intro map_cong) simp_all
  also have "\<dots> = g" using assms(4) by (rule map_nth_self)
  finally have m: "map (\<lambda>i. avgGofr cfg ! i + (g ! i - avgGofr cfg ! i) / real (unat (iteration cfg)))
          [0..<nhist cfg] = g" .
  have "cfg\<lparr> avgGofr := g, iteration := iteration cfg + 1 \<rparr> = cfg\<lparr> iteration := iteration cfg + 1 \<rparr>"
    using assms(3) by simp
  then show ?thesis unfolding averageGofr_step [OF assms(1,2)] m by simp
qed

lemma averageSteps_same:
  assumes "doAverageGofr cfg" and "avgGofr cfg = g" and "length g = nhist cfg"
    and "unat (iteration cfg) + k \<le> 2 ^ 32" and "0 < unat (iteration cfg)"
  shows "averageSteps k cfg g = Inr (cfg\<lparr> iteration := iteration cfg + of_nat k \<rparr>)"
  using assms
proof (induction k arbitrary: cfg)
  case 0
  then show ?case by simp
next
  case (Suc k)
  let ?c = "cfg\<lparr> iteration := iteration cfg + 1 \<rparr>"
  have st: "averageGofr cfg g = Inr (?c, g)"
    using Suc.prems by (intro average_same) simp_all
  show ?case
  proof (cases k)
    case 0
    then show ?thesis by (simp add: st bindE_def)
  next
    case (Suc j)
    then have lt: "unat (iteration cfg) + 1 < 2 ^ 32" using Suc.prems by simp
    then have u: "unat (iteration cfg + 1) = unat (iteration cfg) + 1"
      by (simp add: unat_add_lem [THEN iffD1])
    have "averageSteps k ?c g = Inr (?c\<lparr> iteration := iteration ?c + of_nat k \<rparr>)"
      using Suc.prems u by (intro Suc.IH) simp_all
    then show ?thesis by (simp add: st bindE_def add.assoc)
  qed
qed

lemma averageSteps_from_start:
  assumes "doAverageGofr cfg" and "iteration cfg = 1"
    and "avgGofr cfg = replicate (nhist cfg) 0" and "length g = nhist cfg"
    and "1 \<le> k" and "k < 2 ^ 32"
  shows "\<exists>cfg'. averageSteps k cfg g = Inr cfg' \<and> avgGofr cfg' = g
           \<and> iteration cfg' = of_nat (k + 1)
           \<and> averageGofr cfg' g = (if k + 1 < 2 ^ 32 then Inr (cfg'\<lparr>iteration := of_nat (k + 2)\<rparr>, g) else Inl NonFinite)"
proof -
  obtain j where k: "k = Suc j" using assms(5) by (cases k) auto
  let ?c = "cfg\<lparr> avgGofr := g, iteration := 2 \<rparr>"
  have first: "averageGofr cfg g = Inr (?c, g)"
    using assms by (intro average_first)
  have "averageSteps j ?c g = Inr (?c\<lparr> iteration := iteration ?c + of_nat j \<rparr>)"
    using assms k by (intro averageSteps_same) simp_all
  then have r: "averageSteps k cfg g = Inr (?c\<lparr> iteration := 2 + of_nat j \<rparr>)"
    by (simp add: k first bindE_def)
  let ?r = "?c\<lparr> iteration := 2 + of_nat j \<rparr>"
  have it: "iteration ?r = of_nat (k + 1)" by (simp add: k)
  have "unat (of_nat (k + 1) :: 32 word) = (k + 1) mod 2 ^ 32"
    by (simp only: unat_of_nat) simp
  then have un: "unat (iteration ?r) = (k + 1) mod 2 ^ 32"
    by (simp only: it)
  have last: "averageGofr ?r g =
      (if k + 1 < 2 ^ 32 then Inr (?r\<lparr>iteration := of_nat (k + 2)\<rparr>, g) else Inl NonFinite)"
  proof (cases "k + 1 < 2 ^ 32")
    case True
    then have "unat (iteration ?r) \<noteq> 0" using un by simp
    then have "averageGofr ?r g = Inr (?r\<lparr> iteration := iteration ?r + 1 \<rparr>, g)"
      using assms by (intro average_same) simp_all
    with True show ?thesis by (simp add: k)
  next
    case False
    then have "k + 1 = 2 ^ 32" using assms(6) by simp
    then have "unat (iteration ?r) = 0" using un by simp
    with False assms(1) show ?thesis by (simp add: averageGofr_def)
  qed
  show ?thesis using r it last by (intro exI [of _ ?r]) simp
qed

lemma averageSteps_Suc_last:
  "averageSteps (Suc k) cfg g =
     bindE (averageSteps k cfg g) (\<lambda>c. bindE (averageGofr c g) (\<lambda>avg. Inr (fst avg)))"
proof (induction k arbitrary: cfg)
  case 0
  show ?case by (simp add: bindE_def split: sum.splits)
next
  case (Suc k)
  have "averageSteps (Suc (Suc k)) cfg g =
          bindE (averageGofr cfg g) (\<lambda>avg. averageSteps (Suc k) (fst avg) g)"
    by simp
  also have "\<dots> = bindE (averageGofr cfg g) (\<lambda>avg.
        bindE (averageSteps k (fst avg) g) (\<lambda>c. bindE (averageGofr c g) (\<lambda>avg. Inr (fst avg))))"
    by (simp only: Suc.IH)
  also have "\<dots> = bindE (averageSteps (Suc k) cfg g)
        (\<lambda>c. bindE (averageGofr c g) (\<lambda>avg. Inr (fst avg)))"
    by (simp add: bindE_def split: sum.splits)
  finally show ?case .
qed

lemma averagingObject_facts:
  "doAverageGofr averagingObject" "iteration averagingObject = 1"
  "avgGofr averagingObject = replicate (nhist averagingObject) 0"
  "nhist averagingObject = 2"
  by (simp_all add: averagingObject_def smallObject_def numeral_eq_Suc)

text \<open>
  Claim C6, amended. With AVERAGE_GOFR each step replaces the running mean by
  \<open>avg + (g - avg)/iteration\<close>, increments \<open>iteration\<close> and hands the new mean on as
  g(r); the gradient and virial arrays are not touched by the averaging stage. From
  \<open>avg = 0\<close>, \<open>iteration = 1\<close>, after \<open>k\<close> steps with the same g(r) the mean is
  that g(r), for every \<open>1 \<le> k < 2^32\<close>. Step \<open>2^32\<close> finds the 32-bit counter
  wrapped to zero and divides by it.
\<close>

theorem running_average_fixpoint:
  assumes "doAverageGofr cfg" and "iteration cfg = 1"
    and "avgGofr cfg = replicate (nhist cfg) 0" and "length g = nhist cfg"
    and "1 \<le> k" and "k < 2 ^ 32"
  shows "(\<exists>cfg'. averageSteps k cfg g = Inr cfg' \<and> avgGofr cfg' = g
            \<and> iteration cfg' = of_nat (k + 1))
       \<and> (\<forall>c g' c' a. doAverageGofr c \<and> averageGofr c g' = Inr (c', a) \<longrightarrow>
            a = avgGofr c' \<and> iteration c' = iteration c + 1
            \<and> a = map (\<lambda>i. avgGofr c ! i + (g' ! i - avgGofr c ! i) / real (unat (iteration c)))
                    [0..<nhist c])"
proof -
  have "\<exists>cfg'. averageSteps k cfg g = Inr cfg' \<and> avgGofr cfg' = g
            \<and> iteration cfg' = of_nat (k + 1)"
    using averageSteps_from_start [OF assms] by blast
  moreover have "a = avgGofr c' \<and> iteration c' = iteration c + 1
            \<and> a = map (\<lambda>i. avgGofr c ! i + (g' ! i - avgGofr c ! i) / real (unat (iteration c)))
                    [0..<nhist c]"
    if "doAverageGofr c \<and> averageGofr c g' = Inr (c', a)" for c g' c' a
    using that by (auto simp add: averageGofr_def Let_def split: if_splits)
  ultimately show ?thesis by blast
qed

theorem running_average_fixpoint_witness:
  "doAverageGofr averagingObject \<and> iteration averagingObject = 1
   \<and> avgGofr averagingObject = replicate (nhist averagingObject) 0
   \<and> length [1 / 2, 3 :: real] = nhist averagingObject
   \<and> (1::nat) \<le> 3 \<and> (3::nat) < 2 ^ 32
   \<and> (\<exists>cfg'. averageSteps 3 averagingObject [1 / 2, 3] = Inr cfg'
         \<and> avgGofr cfg' = [1 / 2, 3] \<and> iteration cfg' = 4)"
  using running_average_fixpoint [of averagingObject "[1 / 2, 3]" 3]
  by (simp add: averagingObject_facts)

theorem running_average_wraps:
  "doAverageGofr averagingObject \<and> iteration averagingObject = 1
   \<and> avgGofr averagingObject = replicate (nhist averagingObject) 0
   \<and> length [1 / 2, 3 :: real] = nhist averagingObject
   \<and> averageSteps (2 ^ 32) averagingObject [1 / 2, 3] = Inl NonFinite"
proof -
  have k: "(2::nat) ^ 32 = Suc 4294967295" by simp
  obtain cfg' where c: "averageSteps 4294967295 averagingObject [1 / 2, 3] = Inr cfg'"
    and l: "averageGofr cfg' [1 / 2, 3] = Inl NonFinite"
    using averageSteps_from_start [of averagingObject "[1 / 2, 3]" 4294967295]
    by (auto simp add: averagingObject_facts)
  have "averageSteps (2 ^ 32) averagingObject [1 / 2, 3] = Inl NonFinite"
    by (subst k, subst averageSteps_Suc_last) (simp add: c l bindE_def)
  then show ?thesis by (simp add: averagingObject_facts)
qed

subsection \<open>Accumulation, reduction and the derivative loop\<close>

lemma bindE_simps [simp]: "bindE (Inl e) f = Inl e" "bindE (Inr x) f = f x"
  by (simp_all add: bindE_def)

lemma bindE_Inr_iff: "bindE m f = Inr y \<longleftrightarrow> (\<exists>x. m = Inr x \<and> f x = Inr y)"
  by (cases m) simp_all

lemma foldE_invariant:
  assumes step: "\<And>x a a'. x \<in> set xs \<Longrightarrow> I a \<Longrightarrow> f x a = Inr a' \<Longrightarrow> I a'"
    and "I a" and "foldE f xs a = Inr a'"
  shows "I a'"
  using assms
proof (induction xs arbitrary: a)
  case Nil
  then show ?case by simp
next
  case (Cons x xs)
  from Cons.prems(3) obtain b where b: "f x a = Inr b" and r: "foldE f xs b = Inr a'"
    by (auto simp add: bindE_Inr_iff)
  have ib: "I b" using Cons.prems(1) [of x a b] Cons.prems(2) b by simp
  have st: "I c'" if "y \<in> set xs" "I c" "f y c = Inr c'" for y c c'
    using Cons.prems(1) [of y c c'] that by simp
  show ?case using Cons.IH [of b] st ib r by blast
qed

lemma sum_list_update_group:
  fixes xs :: "'a::ab_group_add list"
  shows "k < length xs \<Longrightarrow> sum_list (xs[k := x]) = sum_list xs + (x - xs ! k)"
proof (induction xs arbitrary: k)
  case Nil
  then show ?case by simp
next
  case (Cons y ys)
  then show ?case by (cases k) (simp_all add: algebra_simps)
qed

lemma sum_list_replicate_0 [simp]: "sum_list (replicate n (0::'a::comm_monoid_add)) = 0"
  by (induction n) simp_all

lemma dims_zeroAccum: "dims h n (zeroAccum h n)"
  by (simp add: dims_def zeroAccum_def list_all_iff)

lemma rowSums_zeroAccum: "rowSums (zeroAccum h n) = replicate h 0"
  by (simp add: rowSums_def zeroAccum_def)

lemma dims_row: "dims h n acc \<Longrightarrow> k < h \<Longrightarrow> length (gofrPrime acc ! k) = n"
  by (simp add: dims_def list_all_length)

lemma dims_addBin:
  assumes "dims h n acc"
  shows "dims h n (addBin cfg i0 i1 dv dm ver k acc)"
proof -
  have "list_all (\<lambda>row. length row = n) ((gofrPrime acc)[k := r])"
    if "length r = n" for r
    using assms that by (auto simp add: dims_def list_all_iff dest: set_update_subset_insert [THEN subsetD])
  then show ?thesis using assms
    by (cases "k < h") (simp_all add: dims_def addBin_def Let_def list_all_length)
qed

lemma rowSums_addBin:
  assumes "dims h n acc" and "i0 < n" and "i1 < n"
  shows "rowSums (addBin cfg i0 i1 dv dm ver k acc) = rowSums acc"
proof (cases "k < h")
  case False
  then show ?thesis using assms
    by (simp add: rowSums_def addBin_def Let_def dims_def list_update_beyond)
next
  case True
  let ?row = "gofrPrime acc ! k"
  let ?v = "scaleV (snd (kernel' cfg (vectorX cfg ! k - dm))) ver"
  let ?r1 = "?row[i0 := ?row ! i0 + ?v]"
  let ?r2 = "?r1[i1 := ?r1 ! i1 - ?v]"
  have len: "length ?row = n" using assms(1) True by (rule dims_row)
  have "sum_list ?r1 = sum_list ?row + ?v"
    using len assms(2) by (simp add: sum_list_update_group)
  moreover have "sum_list ?r2 = sum_list ?r1 - ?v"
    using len assms(3) by (simp add: sum_list_update_group)
  ultimately have s: "sum_list ?r2 = sum_list ?row" by simp
  have "rowSums (addBin cfg i0 i1 dv dm ver k acc) = (rowSums acc)[k := sum_list ?r2]"
    by (simp add: rowSums_def addBin_def Let_def map_update)
  also have "\<dots> = rowSums acc"
    unfolding s using True assms(1) by (simp add: rowSums_def dims_def list_update_same_conv)
  finally show ?thesis .
qed

lemma fold_addBin_inv:
  assumes "dims h n acc" and "i0 < n" and "i1 < n"
  shows "dims h n (fold (addBin cfg i0 i1 dv dm ver) ks acc)
       \<and> rowSums (fold (addBin cfg i0 i1 dv dm ver) ks acc) = rowSums acc"
  using assms(1)
proof (induction ks arbitrary: acc)
  case Nil
  then show ?case by simp
next
  case (Cons k ks)
  have d: "dims h n (addBin cfg i0 i1 dv dm ver k acc)" using Cons.prems by (rule dims_addBin)
  have r: "rowSums (addBin cfg i0 i1 dv dm ver k acc) = rowSums acc"
    using Cons.prems assms(2,3) by (rule rowSums_addBin)
  show ?case using Cons.IH [OF d] r by simp
qed

lemma addPair_inv:
  assumes "dims h (getNumberOfAtoms env) acc" and "addPair cfg env p acc = Inr acc'"
  shows "dims h (getNumberOfAtoms env) acc' \<and> rowSums acc' = rowSums acc"
  using assms fold_addBin_inv [of h "getNumberOfAtoms env" acc "fst p" "snd p"]
  by (auto simp add: addPair_def Let_def split: if_splits option.splits)

lemma balanced_zero: "balanced h n (zeroAccum h n)"
  by (simp add: balanced_def dims_zeroAccum rowSums_zeroAccum)

lemma balanced_row:
  assumes "balanced h n a" and "k < h"
  shows "sum_list (gofrPrime a ! k) = 0" and "length (gofrPrime a ! k) = n"
proof -
  from assms(1) have l: "length (gofrPrime a) = h"
    and r: "map sum_list (gofrPrime a) = replicate h 0"
    and d: "dims h n a"
    by (simp_all add: balanced_def dims_def rowSums_def)
  have "sum_list (gofrPrime a ! k) = map sum_list (gofrPrime a) ! k"
    using l assms(2) by simp
  also have "\<dots> = 0" unfolding r using assms(2) by simp
  finally show "sum_list (gofrPrime a ! k) = 0" .
  show "length (gofrPrime a ! k) = n" using d assms(2) by (rule dims_row)
qed

lemma addPair_balanced:
  assumes "balanced h (getNumberOfAtoms env) acc" and "addPair cfg env p acc = Inr acc'"
  shows "balanced h (getNumberOfAtoms env) acc'"
  using assms addPair_inv [of h env acc cfg p acc'] by (simp add: balanced_def)

lemma accumulate_balanced:
  assumes "accumulate cfg env r = Inr acc"
  shows "balanced (nhist cfg) (getNumberOfAtoms env) acc"
proof -
  let ?n = "getNumberOfAtoms env"
  let ?I = "balanced (nhist cfg) ?n"
  have z: "?I \<lparr> gofr = replicate (nhist cfg) 0,
                 gofrPrime = replicate (nhist cfg) (replicate ?n 0),
                 gofrVirial = replicate (nhist cfg) 0 \<rparr>"
    using balanced_zero [of "nhist cfg" ?n] by (simp add: zeroAccum_def)
  have inner: "?I a'" if "?I a" "foldE (\<lambda>j. addPair cfg env (i, j)) js a = Inr a'" for i js a a'
    using that(1) that(2)
    by (rule foldE_invariant [where I = ?I, rotated]) (rule addPair_balanced)
  show ?thesis
  proof (cases "doneigh cfg")
    case True
    with assms have "foldE (addPair cfg env) (closePairs env r)
        \<lparr> gofr = replicate (nhist cfg) 0,
          gofrPrime = replicate (nhist cfg) (replicate ?n 0),
          gofrVirial = replicate (nhist cfg) 0 \<rparr> = Inr acc"
      by (simp add: accumulate_def Let_def)
    with z show ?thesis
      by (rule foldE_invariant [where I = ?I, rotated]) (rule addPair_balanced)
  next
    case False
    with assms have "foldE (\<lambda>i. foldE (\<lambda>j. addPair cfg env (i, j)) [i + 1..<?n])
        (strided (if serial cfg then 0 else r) (if serial cfg then 1 else comm_size env) (?n - 1))
        \<lparr> gofr = replicate (nhist cfg) 0,
          gofrPrime = replicate (nhist cfg) (replicate ?n 0),
          gofrVirial = replicate (nhist cfg) 0 \<rparr> = Inr acc"
      by (simp add: accumulate_def Let_def)
    with z show ?thesis
      by (rule foldE_invariant [where I = ?I, rotated]) (rule inner)
  qed
qed

lemma allRanks_Inr:
  "allRanks ms = Inr xs \<Longrightarrow> ms = map Inr xs"
proof (induction ms arbitrary: xs)
  case Nil
  then show ?case by simp
next
  case (Cons m ms)
  then show ?case by (auto simp add: bindE_Inr_iff)
qed

lemma allRanks_map_Inr:
  assumes "allRanks (map f rs) = Inr xs"
  shows "length xs = length rs \<and> (\<forall>i<length rs. f (rs ! i) = Inr (xs ! i))"
proof -
  have m: "map f rs = map Inr xs" using assms by (rule allRanks_Inr)
  then have l: "length xs = length rs" by (metis length_map)
  have "f (rs ! i) = Inr (xs ! i)" if "i < length rs" for i
    using m that l by (metis nth_map)
  with l show ?thesis by simp
qed

lemma length_comm_Sum [simp]: "length (comm_Sum n xss) = n"
  by (simp add: comm_Sum_def)

lemma nth_comm_Sum: "k < n \<Longrightarrow> comm_Sum n xss ! k = sum_list (map (\<lambda>xs. xs ! k) xss)"
  by (simp add: comm_Sum_def)

lemma sum_list_comm_Sum:
  assumes "\<forall>xs\<in>set xss. length xs = n"
  shows "sum_list (comm_Sum n xss) = sum_list (map sum_list xss)"
  using assms
proof (induction xss)
  case Nil
  then show ?case by (simp add: comm_Sum_def)
next
  case (Cons x xss)
  have "sum_list (comm_Sum n (x # xss))
          = sum_list (map (\<lambda>k. x ! k + sum_list (map (\<lambda>xs. xs ! k) xss)) [0..<n])"
    by (simp add: comm_Sum_def)
  also have "\<dots> = sum_list (map (\<lambda>k. x ! k) [0..<n]) + sum_list (comm_Sum n xss)"
    by (simp add: sum_list_addf comm_Sum_def)
  also have "map (\<lambda>k. x ! k) [0..<n] = x"
    using Cons.prems by (auto simp add: list_eq_iff_nth_eq)
  finally show ?case using Cons by simp
qed

lemma reduce_balanced:
  assumes "reduce cfg env r = Inr acc"
  shows "balanced (nhist cfg) (getNumberOfAtoms env) acc"
proof (cases "serial cfg")
  case True
  with assms show ?thesis by (simp add: reduce_def accumulate_balanced)
next
  case False
  let ?n = "getNumberOfAtoms env"
  from assms False obtain accs where
    accs: "allRanks (map (accumulate cfg env) [0..<comm_size env]) = Inr accs"
    and acc: "acc = \<lparr> gofr = comm_Sum (nhist cfg) (map gofr accs),
               gofrPrime = map (\<lambda>k. comm_Sum ?n (map (\<lambda>a. gofrPrime a ! k) accs)) [0..<nhist cfg],
               gofrVirial = comm_Sum (nhist cfg) (map gofrVirial accs) \<rparr>"
    by (auto simp add: reduce_def bindE_Inr_iff)
  have bal: "balanced (nhist cfg) ?n a" if "a \<in> set accs" for a
  proof -
    from that obtain i where i: "i < length accs" "a = accs ! i" by (auto simp add: in_set_conv_nth)
    with allRanks_map_Inr [OF accs] have "accumulate cfg env ([0..<comm_size env] ! i) = Inr a"
      by simp
    then show ?thesis by (rule accumulate_balanced)
  qed
  have d: "dims (nhist cfg) ?n acc"
    by (simp add: acc dims_def list_all_iff)
  have "sum_list (comm_Sum ?n (map (\<lambda>a. gofrPrime a ! k) accs)) = 0" if "k < nhist cfg" for k
  proof -
    have len: "\<forall>xs\<in>set (map (\<lambda>a. gofrPrime a ! k) accs). length xs = ?n"
      using bal that by (auto intro: balanced_row(2) [where h = "nhist cfg"])
    have "map sum_list (map (\<lambda>a. gofrPrime a ! k) accs) = map (\<lambda>a. 0) accs"
      using bal that by (auto intro: balanced_row(1) [where h = "nhist cfg"])
    then have "sum_list (map sum_list (map (\<lambda>a. gofrPrime a ! k) accs))
                 = sum_list (map (\<lambda>a. 0::Vector) accs)"
      by (rule arg_cong)
    then have "sum_list (map sum_list (map (\<lambda>a. gofrPrime a ! k) accs)) = 0"
      by (simp del: map_map)
    then show ?thesis using sum_list_comm_Sum [OF len] by simp
  qed
  then have "rowSums acc = replicate (nhist cfg) 0"
    by (auto simp add: acc rowSums_def list_eq_iff_nth_eq)
  with d show ?thesis by (simp add: balanced_def)
qed

lemma sum_list_scaleV: "sum_list (map (scaleV c) xs) = scaleV c (sum_list xs)"
  by (induction xs) (simp_all add: scaleV_def zero_Vector_def plus_Vector_def algebra_simps)

lemma scaleV_zero [simp]: "scaleV c 0 = 0"
  by (simp add: scaleV_def zero_Vector_def)

lemma normalizeBin_balanced:
  assumes "balanced h n acc" and "normalizeBin cfg b j acc = Inr acc'"
  shows "balanced h n acc'"
proof -
  let ?nc = "b * vectorX2 cfg ! j"
  from assms(2) have acc': "acc' = acc\<lparr> gofr := (gofr acc)[j := gofr acc ! j / ?nc],
                   gofrVirial := (gofrVirial acc)[j := divT (gofrVirial acc ! j) ?nc],
                   gofrPrime :=
                     (gofrPrime acc)[j := map (\<lambda>v. divV v ?nc) (gofrPrime acc ! j)] \<rparr>"
    by (auto simp add: normalizeBin_def Let_def split: if_splits)
  show ?thesis
  proof (cases "j < h")
    case False
    with assms(1) show ?thesis by (simp add: acc' balanced_def dims_def rowSums_def list_update_beyond)
  next
    case True
    have len: "length (gofrPrime acc ! j) = n"
      using assms(1) True by (rule balanced_row)
    have "list_all (\<lambda>row. length row = n) ((gofrPrime acc)[j := map (\<lambda>v. divV v ?nc) (gofrPrime acc ! j)])"
      using assms(1) len
      by (auto simp add: balanced_def dims_def list_all_iff dest: set_update_subset_insert [THEN subsetD])
    then have d: "dims h n acc'" using assms(1) by (simp add: acc' balanced_def dims_def)
    have s0: "sum_list (gofrPrime acc ! j) = 0"
      using assms(1) True by (rule balanced_row)
    have "sum_list (map (\<lambda>v. divV v ?nc) (gofrPrime acc ! j)) = 0"
      using sum_list_scaleV [of "1 / ?nc" "gofrPrime acc ! j"] s0 by (simp add: divV_def)
    then have "rowSums acc' = (rowSums acc)[j := 0]"
      by (simp add: acc' rowSums_def map_update)
    also have "\<dots> = rowSums acc" using assms(1) True
      by (simp add: balanced_def list_update_same_conv)
    finally show ?thesis using d assms(1) by (simp add: balanced_def)
  qed
qed

lemma normalizeGofr_balanced:
  assumes "balanced h n acc" and "normalizeGofr cfg env t acc = Inr acc'"
  shows "balanced h n acc'"
  using assms(1) assms(2) [unfolded normalizeGofr_def Let_def]
  by (rule foldE_invariant [where I = "balanced h n", rotated]) (rule normalizeBin_balanced)

lemma strided_Nil [simp]: "\<not> (0 < s \<and> i < m) \<Longrightarrow> strided i s m = []"
  by (subst strided.simps) simp

lemma strided_Cons: "0 < s \<Longrightarrow> i < m \<Longrightarrow> strided i s m = i # strided (i + s) s m"
  by (subst strided.simps) simp

lemma strided_one: "strided i (Suc 0) m = [i..<m]"
proof (induction i "Suc 0" m rule: strided.induct)
  case (1 i m)
  show ?case
  proof (cases "i < m")
    case True
    then show ?thesis using 1 by (simp add: strided_Cons upt_conv_Cons)
  next
    case False
    then show ?thesis by simp
  qed
qed

lemma mod_eq_step:
  fixes i j s :: nat
  assumes "i < j" and "j mod s = i mod s" and "0 < s"
  shows "i + s \<le> j"
proof -
  have "s dvd j - i" using assms by (simp add: mod_eq_dvd_iff_nat less_imp_le)
  moreover have "0 < j - i" using assms by simp
  ultimately have "s \<le> j - i" by (rule dvd_imp_le)
  then show ?thesis using assms by simp
qed

lemma set_strided:
  "0 < s \<Longrightarrow> set (strided i s m) = {j. i \<le> j \<and> j < m \<and> j mod s = i mod s}"
proof (induction i s m rule: strided.induct)
  case (1 i s m)
  show ?case
  proof (cases "i < m")
    case False
    then show ?thesis by auto
  next
    case True
    have ih: "set (strided (i + s) s m) = {j. i + s \<le> j \<and> j < m \<and> j mod s = (i + s) mod s}"
      using 1 True by simp
    have "{j. i \<le> j \<and> j < m \<and> j mod s = i mod s}
            = insert i {j. i + s \<le> j \<and> j < m \<and> j mod s = (i + s) mod s}"
    proof (rule set_eqI)
      fix j
      show "j \<in> {j. i \<le> j \<and> j < m \<and> j mod s = i mod s}
        \<longleftrightarrow> j \<in> insert i {j. i + s \<le> j \<and> j < m \<and> j mod s = (i + s) mod s}"
      proof (cases "j = i")
        case True
        then show ?thesis using \<open>i < m\<close> by simp
      next
        case False
        show ?thesis
        proof
          assume "j \<in> {j. i \<le> j \<and> j < m \<and> j mod s = i mod s}"
          then have a: "i < j" "j < m" "j mod s = i mod s" using False by auto
          from mod_eq_step [OF a(1) a(3) \<open>0 < s\<close>] a show
            "j \<in> insert i {j. i + s \<le> j \<and> j < m \<and> j mod s = (i + s) mod s}" by simp
        next
          assume "j \<in> insert i {j. i + s \<le> j \<and> j < m \<and> j mod s = (i + s) mod s}"
          then show "j \<in> {j. i \<le> j \<and> j < m \<and> j mod s = i mod s}" using False by auto
        qed
      qed
    qed
    then show ?thesis using True 1(2) ih by (simp add: strided_Cons)
  qed
qed

lemma set_strided_rank:
  assumes "r < s"
  shows "set (strided r s m) = {j. j < m \<and> j mod s = r}"
proof -
  have "0 < s" using assms by simp
  have "r \<le> j" if "j mod s = r" for j
    using that mod_less_eq_dividend [of j s] by simp
  then show ?thesis using assms by (auto simp add: set_strided [OF \<open>0 < s\<close>])
qed

lemma distinct_strided: "distinct (strided i s m)"
proof (induction i s m rule: strided.induct)
  case (1 i s m)
  show ?case
  proof (cases "0 < s \<and> i < m")
    case False
    then show ?thesis by simp
  next
    case True
    then have "i \<notin> set (strided (i + s) s m)" by (simp add: set_strided)
    then show ?thesis using True 1 by (simp add: strided_Cons)
  qed
qed

lemma length_fold_update [simp]:
  "length (fold (\<lambda>k v. if c k then v[k := F k] else v) ks v0) = length v0"
  by (induction ks arbitrary: v0) simp_all

lemma nth_fold_update:
  assumes "distinct ks" and "i < length v0"
  shows "fold (\<lambda>k v. if c k then v[k := F k] else v) ks v0 ! i
           = (if i \<in> set ks \<and> c i then F i else v0 ! i)"
  using assms
proof (induction ks arbitrary: v0)
  case Nil
  then show ?case by simp
next
  case (Cons k ks)
  show ?case
  proof (cases "k = i")
    case True
    then show ?thesis using Cons by (auto simp add: nth_list_update)
  next
    case False
    then show ?thesis using Cons by (auto simp add: nth_list_update)
  qed
qed

lemma length_fold_set [simp]: "length (fold (\<lambda>k v. v[k := F k]) ks v0) = length v0"
  by (induction ks arbitrary: v0) simp_all

lemma nth_fold_set:
  assumes "distinct ks" and "i < length v0"
  shows "fold (\<lambda>k v. v[k := F k]) ks v0 ! i = (if i \<in> set ks then F i else v0 ! i)"
  using nth_fold_update [OF assms, of "\<lambda>k. True" F] by simp

lemma foldE_update:
  assumes "\<And>j. j \<in> set js \<Longrightarrow> m j = Inr (val j)"
  shows "foldE (\<lambda>j d. bindE (m j) (\<lambda>v. Inr (d[j := G v]))) js d0
           = Inr (fold (\<lambda>j d. d[j := G (val j)]) js d0)"
  using assms
proof (induction js arbitrary: d0)
  case Nil
  then show ?case by simp
next
  case (Cons j js)
  then show ?case by simp
qed

lemma foldE_update_fail:
  assumes "js \<noteq> []" and "\<And>j. m j = Inl e"
  shows "foldE (\<lambda>j d. bindE (m j) (\<lambda>v. Inr (d[j := G v]))) js d0 = Inl e"
  using assms by (cases js) simp_all

lemma length_integrandDerivatives [simp]:
  "length (integrandDerivatives cfg acc g logG m j) = nhist cfg"
  by (simp add: integrandDerivatives_def)

lemma nth_integrandDerivatives:
  assumes "k < nhist cfg"
  shows "integrandDerivatives cfg acc g logG m j ! k =
           (if m \<le> k \<and> g ! k > threshold
            then scaleV (vectorX2 cfg ! k) (scaleV (logG ! k) (gofrPrime acc ! k ! j)) else 0)"
  using assms by (simp add: integrandDerivatives_def nth_fold_update)

lemma length_integrandVirial [simp]:
  "length (integrandVirial cfg acc g logG m) = nhist cfg"
  by (simp add: integrandVirial_def)

lemma nth_integrandVirial:
  assumes "k < nhist cfg"
  shows "integrandVirial cfg acc g logG m ! k =
           (if m \<le> k \<and> g ! k > threshold
            then scaleT (vectorX2 cfg ! k) (scaleT (logG ! k) (gofrVirial acc ! k)) else 0)"
  using assms by (simp add: integrandVirial_def nth_fold_update)

lemma integrateV_trapezoidV: "vs \<noteq> [] \<Longrightarrow> integrateV vs d = Inr (scaleV d (trapezoidV vs))"
  by (simp add: integrateV_def Let_def fold_plus_sum trapezoidV_def)

lemma derivLoop_eq:
  assumes "0 < nhist cfg"
  shows "derivLoop cfg env l r =
     Inr (map (\<lambda>a. if a \<in> set (strided (if serial cfg then 0 else r)
                                    (if serial cfg then 1 else comm_size env)
                                    (getNumberOfAtoms env))
                   then atomDeriv cfg l a else 0)
            [0..<getNumberOfAtoms env])"
proof -
  let ?n = "getNumberOfAtoms env"
  let ?js = "strided (if serial cfg then 0 else r) (if serial cfg then 1 else comm_size env) ?n"
  let ?ID = "\<lambda>j. integrandDerivatives cfg (l_accum l) (l_gofr l) (l_logGofr l) (l_nhist_min l) j"
  have ne: "?ID j \<noteq> []" for j
    using assms length_integrandDerivatives [of cfg "l_accum l" "l_gofr l" "l_logGofr l" "l_nhist_min l" j]
    by (metis length_0_conv less_numeral_extra(3))
  have m: "integrateV (?ID j) (deltar cfg) = Inr (scaleV (deltar cfg) (trapezoidV (?ID j)))" for j
    using ne by (rule integrateV_trapezoidV)
  have "derivLoop cfg env l r =
      Inr (fold (\<lambda>j d. d[j := scaleV (- l_TwoPiDensity l)
                  (scaleV (deltar cfg) (trapezoidV (?ID j)))]) ?js (replicate ?n 0))"
    unfolding derivLoop_def Let_def
    by (rule foldE_update) (rule m)
  also have "fold (\<lambda>j d. d[j := scaleV (- l_TwoPiDensity l)
                  (scaleV (deltar cfg) (trapezoidV (?ID j)))]) ?js (replicate ?n 0)
      = map (\<lambda>a. if a \<in> set ?js then atomDeriv cfg l a else 0) [0..<?n]"
  proof (rule nth_equalityI)
    show "length (fold (\<lambda>j d. d[j := scaleV (- l_TwoPiDensity l)
                  (scaleV (deltar cfg) (trapezoidV (?ID j)))]) ?js (replicate ?n 0))
        = length (map (\<lambda>a. if a \<in> set ?js then atomDeriv cfg l a else 0) [0..<?n])"
      by (simp only: length_fold_set length_replicate length_map length_upt)
  next
    fix i
    assume "i < length (fold (\<lambda>j d. d[j := scaleV (- l_TwoPiDensity l)
                  (scaleV (deltar cfg) (trapezoidV (?ID j)))]) ?js (replicate ?n 0))"
    then have i: "i < ?n" by (simp only: length_fold_set length_replicate)
    then have "i < length (replicate ?n (0::Vector))" by simp
    from nth_fold_set [OF distinct_strided this]
    show "fold (\<lambda>j d. d[j := scaleV (- l_TwoPiDensity l)
                  (scaleV (deltar cfg) (trapezoidV (?ID j)))]) ?js (replicate ?n 0) ! i
        = map (\<lambda>a. if a \<in> set ?js then atomDeriv cfg l a else 0) [0..<?n] ! i"
      using i by (simp add: atomDeriv_def del: length_replicate)
  qed
  finally show ?thesis .
qed

lemma scaleV_add: "scaleV c (u + v) = scaleV c u + scaleV c v"
  by (simp add: scaleV_def plus_Vector_def algebra_simps)

lemma scaleV_sum: "scaleV c (sum f A) = (\<Sum>a\<in>A. scaleV c (f a))"
  by (induction A rule: infinite_finite_induct) (simp_all add: scaleV_add)

lemma sum_trapezoidV:
  assumes "\<And>a. a \<in> A \<Longrightarrow> length (vs a) = h"
  shows "(\<Sum>a\<in>A. trapezoidV (vs a)) =
           (\<Sum>i = 1..<h - 1. \<Sum>a\<in>A. vs a ! i) + scaleV 0.5 (\<Sum>a\<in>A. vs a ! 0)
            + scaleV 0.5 (\<Sum>a\<in>A. vs a ! (h - 1))"
proof -
  have "(\<Sum>a\<in>A. trapezoidV (vs a)) =
          (\<Sum>a\<in>A. (\<Sum>i = 1..<h - 1. vs a ! i) + scaleV 0.5 (vs a ! 0) + scaleV 0.5 (vs a ! (h - 1)))"
    by (rule sum.cong) (simp_all add: trapezoidV_def assms)
  also have "\<dots> = (\<Sum>a\<in>A. \<Sum>i = 1..<h - 1. vs a ! i) + (\<Sum>a\<in>A. scaleV 0.5 (vs a ! 0))
                    + (\<Sum>a\<in>A. scaleV 0.5 (vs a ! (h - 1)))"
    by (simp add: sum.distrib)
  also have "(\<Sum>a\<in>A. \<Sum>i = 1..<h - 1. vs a ! i) = (\<Sum>i = 1..<h - 1. \<Sum>a\<in>A. vs a ! i)"
    by (rule sum.swap)
  finally show ?thesis by (simp add: scaleV_sum)
qed

lemma sum_atomDeriv_zero:
  assumes "balanced (nhist cfg) n (l_accum l)" and "0 < nhist cfg"
  shows "(\<Sum>a<n. atomDeriv cfg l a) = 0"
proof -
  let ?ID = "\<lambda>j. integrandDerivatives cfg (l_accum l) (l_gofr l) (l_logGofr l) (l_nhist_min l) j"
  have z: "(\<Sum>a<n. ?ID a ! k) = 0" if "k < nhist cfg" for k
  proof (cases "l_nhist_min l \<le> k \<and> l_gofr l ! k > threshold")
    case False
    have "(\<Sum>a<n. ?ID a ! k) = (\<Sum>a<n. 0)"
      using False that by (intro sum.cong) (auto simp add: nth_integrandDerivatives)
    then show ?thesis by simp
  next
    case True
    have "(\<Sum>a<n. gofrPrime (l_accum l) ! k ! a) = sum_list (gofrPrime (l_accum l) ! k)"
      using balanced_row(2) [OF assms(1) that]
      by (simp add: sum_list_sum_nth atLeast0LessThan)
    also have "\<dots> = 0" using assms(1) that by (rule balanced_row)
    finally have s: "(\<Sum>a<n. gofrPrime (l_accum l) ! k ! a) = 0" .
    have "(\<Sum>a<n. ?ID a ! k) = scaleV (vectorX2 cfg ! k) (scaleV (l_logGofr l ! k)
             (\<Sum>a<n. gofrPrime (l_accum l) ! k ! a))"
      using True that by (simp add: nth_integrandDerivatives scaleV_sum)
    then show ?thesis by (simp add: s)
  qed
  have "nhist cfg - 1 < nhist cfg" using assms(2) by simp
  moreover have "(\<Sum>i = 1..<nhist cfg - 1. \<Sum>a<n. ?ID a ! i) = 0"
  proof (rule sum.neutral, rule ballI)
    fix i
    assume "i \<in> {1..<nhist cfg - 1}"
    then have "i < nhist cfg" by auto
    then show "(\<Sum>a<n. ?ID a ! i) = 0" by (rule z)
  qed
  ultimately have "(\<Sum>a<n. trapezoidV (?ID a)) = 0"
    using assms(2) by (subst sum_trapezoidV [where h = "nhist cfg"]) (simp_all add: z)
  then have "scaleV (- l_TwoPiDensity l) (scaleV (deltar cfg) (\<Sum>a<n. trapezoidV (?ID a))) = 0"
    by simp
  then show ?thesis by (simp add: atomDeriv_def scaleV_sum)
qed

lemma integrate_trapezoid_eq: "xs \<noteq> [] \<Longrightarrow> integrate xs d = Inr (trapezoid xs * d)"
  by (simp add: integrate_def Let_def fold_plus_sum trapezoid_def)

lemma integrateT_trapezoidT: "ts \<noteq> [] \<Longrightarrow> integrateT ts d = Inr (scaleT d (trapezoidT ts))"
  by (simp add: integrateT_def Let_def fold_plus_sum trapezoidT_def)

lemma virialOf_eq:
  assumes "0 < nhist cfg"
  shows "virialOf cfg l =
           Inr (if density_given cfg < 0 then positionVirial cfg l + volumeVirial cfg l
                else positionVirial cfg l)"
proof -
  have a: "integrandVirial cfg (l_accum l) (l_gofr l) (l_logGofr l) (l_nhist_min l) \<noteq> []"
    using assms
      length_integrandVirial [of cfg "l_accum l" "l_gofr l" "l_logGofr l" "l_nhist_min l"]
    by (metis length_0_conv less_numeral_extra(3))
  have b: "integrandVirialVolume cfg (l_gofr l) \<noteq> []"
    using assms by (simp add: integrandVirialVolume_def)
  show ?thesis
    by (simp add: virialOf_def integrateT_trapezoidT [OF a] integrate_trapezoid_eq [OF b]
        positionVirial_def volumeVirial_def Let_def)
qed

lemma length_averageGofr:
  assumes "averageGofr cfg g = Inr avg" and "length g = nhist cfg"
  shows "length (snd avg) = nhist cfg"
  using assms by (auto simp add: averageGofr_def Let_def split: if_splits)

lemma scanGofr_nonempty: "scanGofr g 0 0 = Inr m \<Longrightarrow> g \<noteq> []"
  by (auto simp add: scanGofr.simps [of "[]" 0 0])

lemma valueStage_facts:
  assumes "valueStage cfg env r = Inr l"
  shows "balanced (nhist cfg) (getNumberOfAtoms env) (l_accum l)"
    and "0 < nhist cfg"
    and "length (l_gofr l) = nhist cfg"
proof -
  from assms obtain acc dens avg where
    red: "reduce cfg env r = Inr acc"
    and nrm: "normalizeGofr cfg env (2 * pi * dens) acc = Inr (l_accum l)"
    and avg: "averageGofr cfg (gofr (l_accum l)) = Inr avg"
    and g: "l_gofr l = snd avg"
    and scan: "scanGofr (snd avg) 0 0 = Inr (l_nhist_min l)"
    by (auto simp add: valueStage_def bindE_Inr_iff Let_def)
  show b: "balanced (nhist cfg) (getNumberOfAtoms env) (l_accum l)"
    using reduce_balanced [OF red] nrm by (rule normalizeGofr_balanced)
  then have "length (gofr (l_accum l)) = nhist cfg" by (simp add: balanced_def dims_def)
  with avg have len: "length (snd avg) = nhist cfg" by (rule length_averageGofr)
  then show "length (l_gofr l) = nhist cfg" by (simp add: g)
  from scan have "snd avg \<noteq> []" by (rule scanGofr_nonempty)
  then have "0 < length (snd avg)" by simp
  then show "0 < nhist cfg" by (simp only: len)
qed

lemma calculateLocal_eq:
  assumes "valueStage cfg env r = Inr l"
  shows "calculateLocal cfg env r =
     Inr (l_object l,
          if doNotCalculateDerivatives env then
            \<lparr> pairEntropy = l_pairEntropy l, deriv = replicate (getNumberOfAtoms env) 0, virial = 0 \<rparr>
          else
            \<lparr> pairEntropy = l_pairEntropy l,
              deriv = map (\<lambda>a. if a \<in> set (strided (if serial cfg then 0 else r)
                                    (if serial cfg then 1 else comm_size env)
                                    (getNumberOfAtoms env))
                               then atomDeriv cfg l a else 0) [0..<getNumberOfAtoms env],
              virial = (if density_given cfg < 0 then positionVirial cfg l + volumeVirial cfg l
                        else positionVirial cfg l) \<rparr>)"
  using valueStage_facts(2) [OF assms]
  by (simp add: calculateLocal_def assms derivLoop_eq virialOf_eq)

lemma calculateLocal_Inr:
  assumes "calculateLocal cfg env r = Inr res"
  shows "\<exists>l. valueStage cfg env r = Inr l"
  using assms by (auto simp add: calculateLocal_def bindE_Inr_iff)

lemma sum_list_map_upt: "sum_list (map f [0..<n]) = (\<Sum>a<n. f a)"
  for f :: "nat \<Rightarrow> 'a::comm_monoid_add"
  by (simp add: interv_sum_list_conv_sum_set_nat atLeast0LessThan)

lemma valueStage_parallel:
  assumes "\<not> serial cfg"
  shows "valueStage cfg env r = valueStage cfg env r'"
  using assms by (simp add: valueStage_def reduce_def)

lemma addPair_split:
  "addPair cfg env p acc =
     (case pairError cfg env p of Some e \<Rightarrow> Inl e | None \<Rightarrow> Inr (pairAdd cfg env p acc))"
  by (simp add: addPair_def pairError_def pairAdd_def Let_def split: option.splits)

lemma pairError_in_range:
  assumes "fst p < getNumberOfAtoms env" and "snd p < getNumberOfAtoms env"
  shows "pairError cfg env p = None \<or> pairError cfg env p = Some NonFinite"
  using assms by (simp add: pairError_def Let_def split: option.splits)

lemma foldE_append: "foldE f (xs @ ys) a = bindE (foldE f xs a) (foldE f ys)"
  by (induction xs arbitrary: a) (simp_all add: bindE_def split: sum.splits)

lemma foldE_map: "foldE f (map g xs) a = foldE (\<lambda>x. f (g x)) xs a"
  by (induction xs arbitrary: a) (simp_all add: bindE_def split: sum.splits)

lemma foldE_nested:
  "foldE (\<lambda>i. foldE (\<lambda>j. F (i, j)) (J i)) is a
     = foldE F (concat (map (\<lambda>i. map (Pair i) (J i)) is)) a"
proof (induction "is" arbitrary: a)
  case Nil
  show ?case by simp
next
  case (Cons i "is")
  show ?case
    by (simp add: foldE_append foldE_map Cons.IH bindE_def split: sum.splits)
qed

lemma foldE_addPair:
  assumes "\<And>p. p \<in> set ps \<Longrightarrow> fst p < getNumberOfAtoms env \<and> snd p < getNumberOfAtoms env"
  shows "foldE (addPair cfg env) ps acc =
           (if \<exists>p\<in>set ps. pairError cfg env p \<noteq> None then Inl NonFinite
            else Inr (fold (pairAdd cfg env) ps acc))"
  using assms
proof (induction ps arbitrary: acc)
  case Nil
  show ?case by simp
next
  case (Cons p ps)
  have r: "pairError cfg env p = None \<or> pairError cfg env p = Some NonFinite"
    using Cons.prems [of p] by (simp add: pairError_in_range)
  have ih: "foldE (addPair cfg env) ps a =
           (if \<exists>p\<in>set ps. pairError cfg env p \<noteq> None then Inl NonFinite
            else Inr (fold (pairAdd cfg env) ps a))" for a
    using Cons.prems by (intro Cons.IH) simp
  have hd: "addPair cfg env p acc =
      (case pairError cfg env p of Some e \<Rightarrow> Inl e | None \<Rightarrow> Inr (pairAdd cfg env p acc))"
    by (rule addPair_split)
  from r show ?case
  proof
    assume "pairError cfg env p = None"
    then show ?thesis by (simp add: hd ih)
  next
    assume "pairError cfg env p = Some NonFinite"
    then show ?thesis by (simp add: hd)
  qed
qed

lemma fold_additive:
  fixes pr :: "'s \<Rightarrow> 'a::comm_monoid_add"
  assumes "D z" and "pr z = 0"
    and step: "\<And>x s. x \<in> set xs \<Longrightarrow> D s \<Longrightarrow> D (f x s) \<and> pr (f x s) = pr s + pr (f x z)"
    and "D s"
  shows "D (fold f xs s) \<and> pr (fold f xs s) = pr s + (\<Sum>x\<leftarrow>xs. pr (f x z))"
  using step \<open>D s\<close>
proof (induction xs arbitrary: s)
  case Nil
  then show ?case by simp
next
  case (Cons x xs)
  have a: "D (f x s)" "pr (f x s) = pr s + pr (f x z)"
    using Cons.prems(1) [of x s] Cons.prems(2) by simp_all
  have st: "D (f y t) \<and> pr (f y t) = pr t + pr (f y z)" if "y \<in> set xs" "D t" for y t
    using Cons.prems(1) [of y t] that by simp
  have "D (fold f xs (f x s)) \<and> pr (fold f xs (f x s)) = pr (f x s) + (\<Sum>y\<leftarrow>xs. pr (f y z))"
    using st a(1) by (rule Cons.IH)
  then show ?case by (simp add: a(2) add.assoc)
qed

lemma nth_zeroAccum [simp]:
  "k < h \<Longrightarrow> gofr (zeroAccum h n) ! k = 0"
  "k < h \<Longrightarrow> a < n \<Longrightarrow> gofrPrime (zeroAccum h n) ! k ! a = 0"
  "k < h \<Longrightarrow> gofrVirial (zeroAccum h n) ! k = 0"
  by (simp_all add: zeroAccum_def)

lemma addBin_additive:
  assumes "dims h n s" and "k' < h" and "a < n"
  shows "gofr (addBin cfg i0 i1 dv dm ver k s) ! k'
           = gofr s ! k' + gofr (addBin cfg i0 i1 dv dm ver k (zeroAccum h n)) ! k'"
    and "gofrPrime (addBin cfg i0 i1 dv dm ver k s) ! k' ! a
           = gofrPrime s ! k' ! a + gofrPrime (addBin cfg i0 i1 dv dm ver k (zeroAccum h n)) ! k' ! a"
    and "gofrVirial (addBin cfg i0 i1 dv dm ver k s) ! k'
           = gofrVirial s ! k' + gofrVirial (addBin cfg i0 i1 dv dm ver k (zeroAccum h n)) ! k'"
proof -
  have l: "length (gofr s) = h" "length (gofrPrime s) = h" "length (gofrVirial s) = h"
    using assms(1) by (simp_all add: dims_def)
  show "gofr (addBin cfg i0 i1 dv dm ver k s) ! k'
           = gofr s ! k' + gofr (addBin cfg i0 i1 dv dm ver k (zeroAccum h n)) ! k'"
    using assms(2) l by (cases "k < h") (simp_all add: addBin_def Let_def zeroAccum_def nth_list_update)
  show "gofrVirial (addBin cfg i0 i1 dv dm ver k s) ! k'
           = gofrVirial s ! k' + gofrVirial (addBin cfg i0 i1 dv dm ver k (zeroAccum h n)) ! k'"
    using assms(2) l by (cases "k < h") (simp_all add: addBin_def Let_def zeroAccum_def nth_list_update)
  have row: "length (gofrPrime s ! k') = n" using assms(1,2) by (rule dims_row)
  show "gofrPrime (addBin cfg i0 i1 dv dm ver k s) ! k' ! a
           = gofrPrime s ! k' ! a + gofrPrime (addBin cfg i0 i1 dv dm ver k (zeroAccum h n)) ! k' ! a"
  proof (cases "k = k'")
    case False
    then show ?thesis using assms(2,3) l
      by (cases "k < h") (simp_all add: addBin_def Let_def zeroAccum_def nth_list_update)
  next
    case True
    then show ?thesis using assms(2,3) l row
      by (cases "i0 < n"; cases "i1 < n")
         (auto simp add: addBin_def Let_def zeroAccum_def nth_list_update algebra_simps)
  qed
qed

lemma addBin_additive_gofr:
  assumes "dims h n s" and "k' < h"
  shows "gofr (addBin cfg i0 i1 dv dm ver k s) ! k'
           = gofr s ! k' + gofr (addBin cfg i0 i1 dv dm ver k (zeroAccum h n)) ! k'"
    and "gofrVirial (addBin cfg i0 i1 dv dm ver k s) ! k'
           = gofrVirial s ! k' + gofrVirial (addBin cfg i0 i1 dv dm ver k (zeroAccum h n)) ! k'"
proof -
  have l: "length (gofr s) = h" "length (gofrPrime s) = h" "length (gofrVirial s) = h"
    using assms(1) by (simp_all add: dims_def)
  show "gofr (addBin cfg i0 i1 dv dm ver k s) ! k'
           = gofr s ! k' + gofr (addBin cfg i0 i1 dv dm ver k (zeroAccum h n)) ! k'"
    using assms(2) l by (cases "k < h") (simp_all add: addBin_def Let_def zeroAccum_def nth_list_update)
  show "gofrVirial (addBin cfg i0 i1 dv dm ver k s) ! k'
           = gofrVirial s ! k' + gofrVirial (addBin cfg i0 i1 dv dm ver k (zeroAccum h n)) ! k'"
    using assms(2) l by (cases "k < h") (simp_all add: addBin_def Let_def zeroAccum_def nth_list_update)
qed

lemma rankPairs_in_range:
  assumes "p \<in> set (rankPairs n rank stride)"
  shows "fst p < n \<and> snd p < n"
proof (cases "0 < stride")
  case False
  with assms show ?thesis by (simp add: rankPairs_def)
next
  case True
  with assms show ?thesis by (auto simp add: rankPairs_def set_strided)
qed

lemma accumulate_allpairs:
  assumes "\<not> doneigh cfg"
  shows "accumulate cfg env r =
     (if \<exists>p\<in>set (rankPairs (getNumberOfAtoms env) (if serial cfg then 0 else r)
                      (if serial cfg then 1 else comm_size env)).
           pairError cfg env p \<noteq> None
      then Inl NonFinite
      else Inr (fold (pairAdd cfg env)
                  (rankPairs (getNumberOfAtoms env) (if serial cfg then 0 else r)
                     (if serial cfg then 1 else comm_size env))
                  (zeroAccum (nhist cfg) (getNumberOfAtoms env))))"
proof -
  let ?n = "getNumberOfAtoms env"
  let ?ps = "rankPairs ?n (if serial cfg then 0 else r) (if serial cfg then 1 else comm_size env)"
  have nest: "foldE (\<lambda>i. foldE (\<lambda>j. addPair cfg env (i, j)) [i + 1..<?n]) is a
      = foldE (addPair cfg env) (concat (map (\<lambda>i. map (Pair i) [i + 1..<?n]) is)) a" for "is" a
    by (rule foldE_nested [of "addPair cfg env" "\<lambda>i. [i + 1..<?n]"])
  have "accumulate cfg env r = foldE (addPair cfg env) ?ps (zeroAccum (nhist cfg) ?n)"
    using assms by (simp only: accumulate_def Let_def nest rankPairs_def zeroAccum_def if_False)
  also have "\<dots> = (if \<exists>p\<in>set ?ps. pairError cfg env p \<noteq> None then Inl NonFinite
            else Inr (fold (pairAdd cfg env) ?ps (zeroAccum (nhist cfg) ?n)))"
    by (rule foldE_addPair) (rule rankPairs_in_range)
  finally show ?thesis .
qed

lemma pairAdd_additive_gen:
  fixes pr :: "accum \<Rightarrow> 'a::comm_monoid_add"
  assumes z: "pr (zeroAccum h n) = 0"
    and bin: "\<And>i0 i1 dv dm ver k s. dims h n s \<Longrightarrow>
        pr (addBin cfg i0 i1 dv dm ver k s)
          = pr s + pr (addBin cfg i0 i1 dv dm ver k (zeroAccum h n))"
    and s: "dims h n s"
  shows "dims h n (pairAdd cfg env p s)
       \<and> pr (pairAdd cfg env p s) = pr s + pr (pairAdd cfg env p (zeroAccum h n))"
proof -
  have fold_bins: "dims h n (fold (addBin cfg i0 i1 dv dm ver) ks t)
      \<and> pr (fold (addBin cfg i0 i1 dv dm ver) ks t)
          = pr t + (\<Sum>k\<leftarrow>ks. pr (addBin cfg i0 i1 dv dm ver k (zeroAccum h n)))"
    if "dims h n t" for i0 i1 dv dm ver ks t
    using dims_zeroAccum z _ that
  proof (rule fold_additive [where D = "dims h n"])
    fix k u
    assume "dims h n u"
    then show "dims h n (addBin cfg i0 i1 dv dm ver k u)
        \<and> pr (addBin cfg i0 i1 dv dm ver k u)
            = pr u + pr (addBin cfg i0 i1 dv dm ver k (zeroAccum h n))"
      by (simp add: dims_addBin bin)
  qed
  have bins: "dims h n (fold (addBin cfg i0 i1 dv dm ver) ks s)
      \<and> pr (fold (addBin cfg i0 i1 dv dm ver) ks s)
          = pr s + pr (fold (addBin cfg i0 i1 dv dm ver) ks (zeroAccum h n))"
    for i0 i1 dv dm ver ks
    using fold_bins [OF s, of i0 i1 dv dm ver ks]
      fold_bins [OF dims_zeroAccum, of i0 i1 dv dm ver ks] z
    by simp
  show ?thesis
    using s z bins by (simp add: pairAdd_def Let_def split: option.splits)
qed

lemma fold_pairAdd_gen:
  fixes pr :: "accum \<Rightarrow> 'a::comm_monoid_add"
  assumes z: "pr (zeroAccum h n) = 0"
    and bin: "\<And>i0 i1 dv dm ver k s. dims h n s \<Longrightarrow>
        pr (addBin cfg i0 i1 dv dm ver k s)
          = pr s + pr (addBin cfg i0 i1 dv dm ver k (zeroAccum h n))"
  shows "dims h n (fold (pairAdd cfg env) ps (zeroAccum h n))
       \<and> pr (fold (pairAdd cfg env) ps (zeroAccum h n))
           = (\<Sum>p\<leftarrow>ps. pr (pairAdd cfg env p (zeroAccum h n)))"
proof -
  have "dims h n (fold (pairAdd cfg env) ps (zeroAccum h n))
       \<and> pr (fold (pairAdd cfg env) ps (zeroAccum h n))
           = pr (zeroAccum h n) + (\<Sum>p\<leftarrow>ps. pr (pairAdd cfg env p (zeroAccum h n)))"
    using dims_zeroAccum z _ dims_zeroAccum
  proof (rule fold_additive [where D = "dims h n"])
    fix p u
    assume "dims h n u"
    with z bin show "dims h n (pairAdd cfg env p u)
        \<and> pr (pairAdd cfg env p u) = pr u + pr (pairAdd cfg env p (zeroAccum h n))"
      by (rule pairAdd_additive_gen)
  qed
  then show ?thesis by (simp add: z)
qed

lemma sum_list_concat_map:
  fixes c :: "'b \<Rightarrow> 'a::comm_monoid_add"
  shows "(\<Sum>p\<leftarrow>concat (map F is). c p) = (\<Sum>i\<leftarrow>is. \<Sum>p\<leftarrow>F i. c p)"
  by (induction "is") simp_all

lemma sum_rankPairs:
  fixes c :: "nat \<times> nat \<Rightarrow> 'a::comm_monoid_add"
  shows "(\<Sum>p\<leftarrow>rankPairs n rank stride. c p)
           = (\<Sum>i\<leftarrow>strided rank stride (n - 1). \<Sum>j\<leftarrow>[i + 1..<n]. c (i, j))"
  by (simp add: rankPairs_def sum_list_concat_map o_def)

lemma sum_strided_rank:
  fixes H :: "nat \<Rightarrow> 'a::comm_monoid_add"
  assumes "r < P"
  shows "(\<Sum>i\<leftarrow>strided r P m. H i) = (\<Sum>i<m. if i mod P = r then H i else 0)"
proof -
  have "(\<Sum>i\<leftarrow>strided r P m. H i) = (\<Sum>i\<in>set (strided r P m). H i)"
    using distinct_strided by (rule sum_list_distinct_conv_sum_set)
  also have "\<dots> = (\<Sum>i\<in>{i \<in> {..<m}. i mod P = r}. H i)"
    using assms by (simp add: set_strided_rank)
  also have "\<dots> = (\<Sum>i<m. if i mod P = r then H i else 0)"
    by (simp add: sum.If_cases Int_def)
  finally show ?thesis .
qed

lemma sum_ranks:
  fixes H :: "nat \<Rightarrow> 'a::comm_monoid_add"
  assumes "0 < P"
  shows "(\<Sum>r\<leftarrow>[0..<P]. \<Sum>i\<leftarrow>strided r P m. H i) = (\<Sum>i\<leftarrow>strided 0 1 m. H i)"
proof -
  have "(\<Sum>r\<leftarrow>[0..<P]. \<Sum>i\<leftarrow>strided r P m. H i) = (\<Sum>r<P. \<Sum>i\<leftarrow>strided r P m. H i)"
    by (simp add: sum_list_map_upt)
  also have "\<dots> = (\<Sum>r<P. \<Sum>i<m. if i mod P = r then H i else 0)"
    by (rule sum.cong) (simp_all add: sum_strided_rank)
  also have "\<dots> = (\<Sum>i<m. \<Sum>r<P. if i mod P = r then H i else 0)"
    by (rule sum.swap)
  also have "\<dots> = (\<Sum>i<m. H i)"
  proof (rule sum.cong)
    fix i
    have "(\<Sum>r<P. if i mod P = r then H i else 0) = (\<Sum>r\<in>{..<P}. if r = i mod P then H i else 0)"
      by (rule sum.cong) auto
    also have "\<dots> = H i" using assms by (simp add: sum.delta)
    finally show "(\<Sum>r<P. if i mod P = r then H i else 0) = H i" .
  qed simp
  also have "\<dots> = (\<Sum>i\<leftarrow>strided 0 1 m. H i)"
    by (simp add: strided_one sum_list_map_upt)
  finally show ?thesis .
qed

lemma sum_rankPairs_ranks:
  fixes c :: "nat \<times> nat \<Rightarrow> 'a::comm_monoid_add"
  assumes "0 < P"
  shows "(\<Sum>r\<leftarrow>[0..<P]. \<Sum>p\<leftarrow>rankPairs n r P. c p) = (\<Sum>p\<leftarrow>rankPairs n 0 1. c p)"
  by (simp only: sum_rankPairs sum_ranks [OF assms])

lemma set_rankPairs_ranks:
  assumes "0 < P"
  shows "(\<Union>r\<in>{..<P}. set (rankPairs n r P)) = set (rankPairs n 0 1)"
proof -
  have "(\<Union>r\<in>{..<P}. set (strided r P m)) = set (strided 0 1 m)" for m
  proof -
    have "(\<Union>r\<in>{..<P}. set (strided r P m)) = (\<Union>r\<in>{..<P}. {j. j < m \<and> j mod P = r})"
      by (rule SUP_cong) (simp_all add: set_strided_rank)
    also have "\<dots> = {..<m}" using assms by auto
    also have "\<dots> = set (strided 0 1 m)" by (auto simp add: strided_one)
    finally show ?thesis .
  qed
  then have "set (strided 0 1 (n - 1)) = (\<Union>r\<in>{..<P}. set (strided r P (n - 1)))" by simp
  then show ?thesis by (auto simp add: rankPairs_def)
qed

lemma allRanks_Inl:
  assumes "\<And>r. r \<in> set rs \<Longrightarrow> f r = Inl e \<or> (\<exists>x. f r = Inr x)"
    and "\<exists>r\<in>set rs. f r = Inl e"
  shows "allRanks (map f rs) = Inl e"
  using assms
proof (induction rs)
  case Nil
  then show ?case by simp
next
  case (Cons r rs)
  show ?case
  proof (cases "f r")
    case (Inl e')
    then show ?thesis using Cons.prems(1) [of r] by simp
  next
    case (Inr x)
    then have "\<exists>r\<in>set rs. f r = Inl e" using Cons.prems(2) by auto
    then have "allRanks (map f rs) = Inl e" using Cons.prems(1) by (intro Cons.IH) simp_all
    then show ?thesis using Inr by simp
  qed
qed

lemma allRanks_all_Inr:
  assumes "\<And>r. r \<in> set rs \<Longrightarrow> f r = Inr (F r)"
  shows "allRanks (map f rs) = Inr (map F rs)"
  using assms by (induction rs) simp_all

lemma fold_pairAdd_sums:
  assumes "k < h"
  shows "dims h n (fold (pairAdd cfg env) ps (zeroAccum h n))"
    and "gofr (fold (pairAdd cfg env) ps (zeroAccum h n)) ! k
           = (\<Sum>p\<leftarrow>ps. gofr (pairAdd cfg env p (zeroAccum h n)) ! k)"
    and "a < n \<Longrightarrow> gofrPrime (fold (pairAdd cfg env) ps (zeroAccum h n)) ! k ! a
           = (\<Sum>p\<leftarrow>ps. gofrPrime (pairAdd cfg env p (zeroAccum h n)) ! k ! a)"
    and "gofrVirial (fold (pairAdd cfg env) ps (zeroAccum h n)) ! k
           = (\<Sum>p\<leftarrow>ps. gofrVirial (pairAdd cfg env p (zeroAccum h n)) ! k)"
proof -
  have g: "dims h n (fold (pairAdd cfg env) ps (zeroAccum h n))
       \<and> gofr (fold (pairAdd cfg env) ps (zeroAccum h n)) ! k
           = (\<Sum>p\<leftarrow>ps. gofr (pairAdd cfg env p (zeroAccum h n)) ! k)"
  proof (rule fold_pairAdd_gen [where pr = "\<lambda>s. gofr s ! k"])
    show "gofr (zeroAccum h n) ! k = 0" using assms by (rule nth_zeroAccum)
  next
    fix i0 i1 dv dm ver k' s
    assume "dims h n s"
    then show "gofr (addBin cfg i0 i1 dv dm ver k' s) ! k
        = gofr s ! k + gofr (addBin cfg i0 i1 dv dm ver k' (zeroAccum h n)) ! k"
      using assms by (rule addBin_additive_gofr)
  qed
  from g show "dims h n (fold (pairAdd cfg env) ps (zeroAccum h n))" by (rule conjunct1)
  from g show "gofr (fold (pairAdd cfg env) ps (zeroAccum h n)) ! k
           = (\<Sum>p\<leftarrow>ps. gofr (pairAdd cfg env p (zeroAccum h n)) ! k)" by (rule conjunct2)
  have v: "dims h n (fold (pairAdd cfg env) ps (zeroAccum h n))
       \<and> gofrVirial (fold (pairAdd cfg env) ps (zeroAccum h n)) ! k
           = (\<Sum>p\<leftarrow>ps. gofrVirial (pairAdd cfg env p (zeroAccum h n)) ! k)"
  proof (rule fold_pairAdd_gen [where pr = "\<lambda>s. gofrVirial s ! k"])
    show "gofrVirial (zeroAccum h n) ! k = 0" using assms by (rule nth_zeroAccum)
  next
    fix i0 i1 dv dm ver k' s
    assume "dims h n s"
    then show "gofrVirial (addBin cfg i0 i1 dv dm ver k' s) ! k
        = gofrVirial s ! k + gofrVirial (addBin cfg i0 i1 dv dm ver k' (zeroAccum h n)) ! k"
      using assms by (rule addBin_additive_gofr)
  qed
  from v show "gofrVirial (fold (pairAdd cfg env) ps (zeroAccum h n)) ! k
           = (\<Sum>p\<leftarrow>ps. gofrVirial (pairAdd cfg env p (zeroAccum h n)) ! k)" by (rule conjunct2)
  show "gofrPrime (fold (pairAdd cfg env) ps (zeroAccum h n)) ! k ! a
           = (\<Sum>p\<leftarrow>ps. gofrPrime (pairAdd cfg env p (zeroAccum h n)) ! k ! a)" if "a < n"
  proof -
    have "dims h n (fold (pairAdd cfg env) ps (zeroAccum h n))
       \<and> gofrPrime (fold (pairAdd cfg env) ps (zeroAccum h n)) ! k ! a
           = (\<Sum>p\<leftarrow>ps. gofrPrime (pairAdd cfg env p (zeroAccum h n)) ! k ! a)"
    proof (rule fold_pairAdd_gen [where pr = "\<lambda>s. gofrPrime s ! k ! a"])
      show "gofrPrime (zeroAccum h n) ! k ! a = 0" using assms that by (rule nth_zeroAccum)
    next
      fix i0 i1 dv dm ver k' s
      assume "dims h n s"
      then show "gofrPrime (addBin cfg i0 i1 dv dm ver k' s) ! k ! a
          = gofrPrime s ! k ! a + gofrPrime (addBin cfg i0 i1 dv dm ver k' (zeroAccum h n)) ! k ! a"
        using assms that by (rule addBin_additive)
    qed
    then show ?thesis by (rule conjunct2)
  qed
qed

lemma kernel_serial [simp]: "kernel' (cfg\<lparr>serial := b\<rparr>) x = kernel' cfg x"
  by (simp add: kernel'_def)

lemma withinCutoff_serial [simp]: "withinCutoff (cfg\<lparr>serial := b\<rparr>) d = withinCutoff cfg d"
  by (simp add: withinCutoff_def Let_def cong: if_cong)

lemma binRange_serial [simp]: "binRange (cfg\<lparr>serial := b\<rparr>) d = binRange cfg d"
  by (simp add: binRange_def Let_def cong: if_cong)

lemma addBin_serial [simp]:
  "addBin (cfg\<lparr>serial := b\<rparr>) i0 i1 dv dm ver = addBin cfg i0 i1 dv dm ver"
  by (rule ext)+ (simp add: addBin_def Let_def)

lemma pairError_serial [simp]: "pairError (cfg\<lparr>serial := b\<rparr>) env p = pairError cfg env p"
  by (simp add: pairError_def Let_def cong: if_cong option.case_cong)

lemma pairAdd_serial [simp]: "pairAdd (cfg\<lparr>serial := b\<rparr>) env = pairAdd cfg env"
  by (rule ext)+ (simp add: pairAdd_def Let_def cong: if_cong option.case_cong)

lemma comm_Sum_folds:
  assumes "0 < P"
  shows "\<lparr> gofr = comm_Sum h (map gofr (map (\<lambda>r. fold (pairAdd cfg env) (rankPairs n r P) (zeroAccum h n)) [0..<P])),
           gofrPrime = map (\<lambda>k. comm_Sum n (map (\<lambda>a. gofrPrime a ! k)
                          (map (\<lambda>r. fold (pairAdd cfg env) (rankPairs n r P) (zeroAccum h n)) [0..<P])))
                         [0..<h],
           gofrVirial = comm_Sum h (map gofrVirial
                          (map (\<lambda>r. fold (pairAdd cfg env) (rankPairs n r P) (zeroAccum h n)) [0..<P])) \<rparr>
         = fold (pairAdd cfg env) (rankPairs n 0 1) (zeroAccum h n)"
    (is "?L = ?S")
proof -
  let ?A = "\<lambda>r. fold (pairAdd cfg env) (rankPairs n r P) (zeroAccum h n)"
  let ?c = "\<lambda>p. pairAdd cfg env p (zeroAccum h n)"
  have d: "dims h n ?S"
    using fold_pairAdd_gen [where pr = "\<lambda>s. 0::real" and h = h and n = n and cfg = cfg
        and env = env and ps = "rankPairs n 0 1"] by simp
  have g: "gofr ?L = gofr ?S"
  proof (rule nth_equalityI)
    show "length (gofr ?L) = length (gofr ?S)" using d by (simp add: dims_def)
  next
    fix k
    assume "k < length (gofr ?L)"
    then have k: "k < h" by simp
    have "gofr ?L ! k = (\<Sum>r\<leftarrow>[0..<P]. gofr (?A r) ! k)"
      using k by (simp add: nth_comm_Sum o_def)
    also have "\<dots> = (\<Sum>r\<leftarrow>[0..<P]. \<Sum>p\<leftarrow>rankPairs n r P. gofr (?c p) ! k)"
      by (simp only: fold_pairAdd_sums(2) [OF k])
    also have "\<dots> = (\<Sum>p\<leftarrow>rankPairs n 0 1. gofr (?c p) ! k)"
      using assms by (rule sum_rankPairs_ranks)
    also have "\<dots> = gofr ?S ! k"
      by (simp only: fold_pairAdd_sums(2) [OF k])
    finally show "gofr ?L ! k = gofr ?S ! k" .
  qed
  have v: "gofrVirial ?L = gofrVirial ?S"
  proof (rule nth_equalityI)
    show "length (gofrVirial ?L) = length (gofrVirial ?S)" using d by (simp add: dims_def)
  next
    fix k
    assume "k < length (gofrVirial ?L)"
    then have k: "k < h" by simp
    have "gofrVirial ?L ! k = (\<Sum>r\<leftarrow>[0..<P]. gofrVirial (?A r) ! k)"
      using k by (simp add: nth_comm_Sum o_def)
    also have "\<dots> = (\<Sum>r\<leftarrow>[0..<P]. \<Sum>p\<leftarrow>rankPairs n r P. gofrVirial (?c p) ! k)"
      by (simp only: fold_pairAdd_sums(4) [OF k])
    also have "\<dots> = (\<Sum>p\<leftarrow>rankPairs n 0 1. gofrVirial (?c p) ! k)"
      using assms by (rule sum_rankPairs_ranks)
    also have "\<dots> = gofrVirial ?S ! k"
      by (simp only: fold_pairAdd_sums(4) [OF k])
    finally show "gofrVirial ?L ! k = gofrVirial ?S ! k" .
  qed
  have p: "gofrPrime ?L = gofrPrime ?S"
  proof (rule nth_equalityI)
    show "length (gofrPrime ?L) = length (gofrPrime ?S)" using d by (simp add: dims_def)
  next
    fix k
    assume "k < length (gofrPrime ?L)"
    then have k: "k < h" by simp
    show "gofrPrime ?L ! k = gofrPrime ?S ! k"
    proof (rule nth_equalityI)
      show "length (gofrPrime ?L ! k) = length (gofrPrime ?S ! k)"
        using k dims_row [OF d k] by simp
    next
      fix a
      assume "a < length (gofrPrime ?L ! k)"
      then have a: "a < n" using k by simp
      have "gofrPrime ?L ! k ! a = (\<Sum>r\<leftarrow>[0..<P]. gofrPrime (?A r) ! k ! a)"
        using k a by (simp add: nth_comm_Sum o_def)
      also have "\<dots> = (\<Sum>r\<leftarrow>[0..<P]. \<Sum>p\<leftarrow>rankPairs n r P. gofrPrime (?c p) ! k ! a)"
        by (simp only: fold_pairAdd_sums(3) [OF k a])
      also have "\<dots> = (\<Sum>p\<leftarrow>rankPairs n 0 1. gofrPrime (?c p) ! k ! a)"
        using assms by (rule sum_rankPairs_ranks)
      also have "\<dots> = gofrPrime ?S ! k ! a"
        by (simp only: fold_pairAdd_sums(3) [OF k a])
      finally show "gofrPrime ?L ! k ! a = gofrPrime ?S ! k ! a" .
    qed
  qed
  show ?thesis
    using g v p by (intro accum.equality) simp_all
qed

lemma reduce_parallel_eq_serial:
  assumes "\<not> doneigh cfg" and "\<not> serial cfg" and "0 < comm_size env"
  shows "reduce cfg env r = accumulate (cfg\<lparr>serial := True\<rparr>) env r'"
proof -
  let ?n = "getNumberOfAtoms env"
  let ?h = "nhist cfg"
  let ?P = "comm_size env"
  let ?z = "zeroAccum ?h ?n"
  let ?A = "\<lambda>r. fold (pairAdd cfg env) (rankPairs ?n r ?P) ?z"
  let ?bad = "\<lambda>ps. \<exists>p\<in>set ps. pairError cfg env p \<noteq> None"
  have par: "accumulate cfg env r =
      (if ?bad (rankPairs ?n r ?P) then Inl NonFinite else Inr (?A r))" for r
    using accumulate_allpairs [OF assms(1), of env r] assms(2) by simp
  have ser: "accumulate (cfg\<lparr>serial := True\<rparr>) env r' =
      (if ?bad (rankPairs ?n 0 1) then Inl NonFinite
       else Inr (fold (pairAdd cfg env) (rankPairs ?n 0 1) ?z))"
    using accumulate_allpairs [of "cfg\<lparr>serial := True\<rparr>" env r'] assms(1) by simp
  have bad: "?bad (rankPairs ?n 0 1) \<longleftrightarrow> (\<exists>r\<in>set [0..<?P]. ?bad (rankPairs ?n r ?P))"
  proof -
    have U: "(\<Union>r\<in>{..<?P}. set (rankPairs ?n r ?P)) = set (rankPairs ?n 0 1)"
      using assms(3) by (rule set_rankPairs_ranks)
    have "?bad (rankPairs ?n 0 1)
        \<longleftrightarrow> (\<exists>p\<in>(\<Union>r\<in>{..<?P}. set (rankPairs ?n r ?P)). pairError cfg env p \<noteq> None)"
      by (simp only: U)
    also have "\<dots> \<longleftrightarrow> (\<exists>r\<in>{..<?P}. ?bad (rankPairs ?n r ?P))"
      by blast
    also have "{..<?P} = set [0..<?P]" by (simp add: atLeast0LessThan)
    finally show ?thesis .
  qed
  show ?thesis
  proof (cases "?bad (rankPairs ?n 0 1)")
    case True
    then have "\<exists>r\<in>set [0..<?P]. accumulate cfg env r = Inl NonFinite"
      using bad par by auto
    moreover have "accumulate cfg env r = Inl NonFinite \<or> (\<exists>x. accumulate cfg env r = Inr x)" for r
      using par [of r] by auto
    ultimately have "allRanks (map (accumulate cfg env) [0..<?P]) = Inl NonFinite"
      by (intro allRanks_Inl) auto
    then show ?thesis using assms(2) True by (simp add: reduce_def ser)
  next
    case False
    then have "accumulate cfg env r = Inr (?A r)" if "r \<in> set [0..<?P]" for r
      using bad par that by auto
    then have "allRanks (map (accumulate cfg env) [0..<?P]) = Inr (map ?A [0..<?P])"
      by (rule allRanks_all_Inr)
    then show ?thesis
      using assms(2) False comm_Sum_folds [OF assms(3), of ?h cfg env ?n]
      by (simp add: reduce_def ser)
  qed
qed

lemma env_comm_irrelevant [simp]:
  "getNumberOfAtoms (env\<lparr>comm_size := q\<rparr>) = getNumberOfAtoms env"
  "getNumberOfAtoms (env\<lparr>comm_rank := c\<rparr>) = getNumberOfAtoms env"
  "getAbsoluteIndex (env\<lparr>comm_size := q\<rparr>) = getAbsoluteIndex env"
  "getAbsoluteIndex (env\<lparr>comm_rank := c\<rparr>) = getAbsoluteIndex env"
  "getPosition (env\<lparr>comm_size := q\<rparr>) = getPosition env"
  "getPosition (env\<lparr>comm_rank := c\<rparr>) = getPosition env"
  by (simp_all add: getNumberOfAtoms_def getAbsoluteIndex_def getPosition_def fun_eq_iff)

lemma pairError_env [simp]:
  "pairError cfg (env\<lparr>comm_size := q\<rparr>) = pairError cfg env"
  "pairError cfg (env\<lparr>comm_rank := c\<rparr>) = pairError cfg env"
  by (rule ext, simp add: pairError_def Let_def cong: if_cong option.case_cong)+

lemma pairAdd_env [simp]:
  "pairAdd cfg (env\<lparr>comm_size := q\<rparr>) = pairAdd cfg env"
  "pairAdd cfg (env\<lparr>comm_rank := c\<rparr>) = pairAdd cfg env"
  by ((rule ext)+, simp add: pairAdd_def Let_def cong: if_cong option.case_cong)+

lemma density_irrelevant [simp]:
  "density (cfg\<lparr>serial := b\<rparr>) env = density cfg env"
  "density cfg (env\<lparr>comm_size := q\<rparr>) = density cfg env"
  "density cfg (env\<lparr>comm_rank := c\<rparr>) = density cfg env"
  by (simp_all add: density_def Let_def cong: if_cong)

lemma normalizeBin_serial [simp]:
  "normalizeBin (cfg\<lparr>serial := b\<rparr>) = normalizeBin cfg"
  by (rule ext)+ (simp add: normalizeBin_def Let_def cong: if_cong)

lemma normalizeGofr_irrelevant [simp]:
  "normalizeGofr (cfg\<lparr>serial := b\<rparr>) env = normalizeGofr cfg env"
  "normalizeGofr cfg (env\<lparr>comm_size := q\<rparr>) = normalizeGofr cfg env"
  "normalizeGofr cfg (env\<lparr>comm_rank := c\<rparr>) = normalizeGofr cfg env"
  by ((rule ext)+, simp add: normalizeGofr_def Let_def)+

lemma averageGofr_serial:
  "averageGofr (cfg\<lparr>serial := b\<rparr>) g
     = map_sum id (\<lambda>avg. ((fst avg)\<lparr>serial := b\<rparr>, snd avg)) (averageGofr cfg g)"
  by (simp add: averageGofr_def Let_def)

lemma logGofrAt_serial [simp]: "logGofrAt (cfg\<lparr>serial := b\<rparr>) = logGofrAt cfg"
  by (rule ext)+ (simp add: logGofrAt_def cong: if_cong)

lemma integrandAt_serial [simp]: "integrandAt (cfg\<lparr>serial := b\<rparr>) = integrandAt cfg"
  by (rule ext)+ (simp add: integrandAt_def cong: if_cong)

lemma integrandDerivatives_serial [simp]:
  "integrandDerivatives (cfg\<lparr>serial := b\<rparr>) = integrandDerivatives cfg"
  by (rule ext)+ (simp add: integrandDerivatives_def cong: if_cong)

lemma integrandVirial_serial [simp]:
  "integrandVirial (cfg\<lparr>serial := b\<rparr>) = integrandVirial cfg"
  by (rule ext)+ (simp add: integrandVirial_def cong: if_cong)

lemma integrandVirialVolume_serial [simp]:
  "integrandVirialVolume (cfg\<lparr>serial := b\<rparr>) = integrandVirialVolume cfg"
  by (rule ext)+ (simp add: integrandVirialVolume_def cong: if_cong)

lemma accumulate_serial_indep:
  assumes "\<not> doneigh cfg"
  shows "accumulate (cfg\<lparr>serial := True\<rparr>) (env\<lparr>comm_size := q, comm_rank := c\<rparr>) r
           = accumulate (cfg\<lparr>serial := True\<rparr>) env r'"
  using assms by (simp add: accumulate_allpairs)

lemma valueStage_env:
  assumes "reduce cfg (env\<lparr>comm_size := q, comm_rank := c\<rparr>) r' = reduce cfg env r"
  shows "valueStage cfg (env\<lparr>comm_size := q, comm_rank := c\<rparr>) r' = valueStage cfg env r"
  by (simp add: valueStage_def assms)

lemma valueStage_flag:
  assumes "reduce (cfg\<lparr>serial := b\<rparr>) env r' = reduce cfg env r"
  shows "valueStage (cfg\<lparr>serial := b\<rparr>) env r'
           = map_sum id (\<lambda>l. l\<lparr>l_object := (l_object l)\<lparr>serial := b\<rparr>\<rparr>) (valueStage cfg env r)"
  by (simp add: valueStage_def assms averageGofr_serial bindE_def Let_def split: sum.splits)

lemma valueStage_serial_any:
  assumes "\<not> doneigh cfg"
  shows "valueStage (cfg\<lparr>serial := True\<rparr>) (env\<lparr>comm_size := q, comm_rank := c\<rparr>) r
           = valueStage (cfg\<lparr>serial := True\<rparr>) env 0"
  by (rule valueStage_env) (simp add: reduce_def accumulate_serial_indep [OF assms])

lemma valueStage_serial_rank:
  assumes "\<not> doneigh cfg"
  shows "valueStage (cfg\<lparr>serial := True\<rparr>) env r = valueStage (cfg\<lparr>serial := True\<rparr>) env 0"
  using assms by (simp add: valueStage_def reduce_def accumulate_allpairs)

lemma valueStage_parallel_serial:
  assumes "\<not> doneigh cfg" and "0 < comm_size env"
  shows "valueStage (cfg\<lparr>serial := False\<rparr>) env r
           = map_sum id (\<lambda>l. l\<lparr>l_object := (l_object l)\<lparr>serial := False\<rparr>\<rparr>)
               (valueStage (cfg\<lparr>serial := True\<rparr>) env 0)"
proof -
  have "reduce (cfg\<lparr>serial := False\<rparr>) env r
          = accumulate (cfg\<lparr>serial := False, serial := True\<rparr>) env 0"
    using assms by (intro reduce_parallel_eq_serial) simp_all
  then have "reduce (cfg\<lparr>serial := True, serial := False\<rparr>) env r
          = reduce (cfg\<lparr>serial := True\<rparr>) env 0"
    by (simp add: reduce_def)
  from valueStage_flag [OF this] show ?thesis by simp
qed

lemma atomDeriv_irrelevant [simp]:
  "atomDeriv (cfg\<lparr>serial := b\<rparr>) l = atomDeriv cfg l"
  "atomDeriv cfg (l\<lparr>l_object := ob\<rparr>) = atomDeriv cfg l"
  by (rule ext, simp add: atomDeriv_def)+

lemma virial_irrelevant [simp]:
  "positionVirial (cfg\<lparr>serial := b\<rparr>) l = positionVirial cfg l"
  "positionVirial cfg (l\<lparr>l_object := ob\<rparr>) = positionVirial cfg l"
  "volumeVirial (cfg\<lparr>serial := b\<rparr>) l = volumeVirial cfg l"
  "volumeVirial cfg (l\<lparr>l_object := ob\<rparr>) = volumeVirial cfg l"
  by (simp_all add: positionVirial_def volumeVirial_def)

lemma sum_list_const_Vector: "(\<Sum>r\<leftarrow>rs. v) = scaleV (real (length rs)) (v::Vector)"
  by (induction rs) (simp_all add: scaleV_def zero_Vector_def plus_Vector_def algebra_simps)

lemma scaleV_one [simp]: "scaleV 1 v = v"
  by (simp add: scaleV_def)

lemma sum_list_rank_indicator:
  fixes v :: Vector
  assumes "0 < P" and "a < n"
  shows "(\<Sum>r\<leftarrow>[0..<P]. if a \<in> set (strided r P n) then v else 0) = v"
proof -
  have "(\<Sum>r\<leftarrow>[0..<P]. if a \<in> set (strided r P n) then v else 0)
          = (\<Sum>r<P. if a \<in> set (strided r P n) then v else 0)"
    by (simp add: sum_list_map_upt)
  also have "\<dots> = (\<Sum>r\<in>{..<P}. if r = a mod P then v else 0)"
    using assms by (intro sum.cong) (auto simp add: set_strided_rank)
  also have "\<dots> = v" using assms by (simp add: sum.delta)
  finally show ?thesis .
qed

lemma calculate_fail:
  assumes "valueStage cfg env (comm_rank env) = Inl e"
  shows "calculate cfg env = Inl e"
  by (simp add: calculate_def calculateLocal_def assms)

lemma calculate_uniform:
  assumes vs: "\<And>r. valueStage cfg env r = Inr l" and P: "0 < comm_size env"
  shows "calculate cfg env =
     Inr (l_object l,
          if doNotCalculateDerivatives env then
            \<lparr> pairEntropy = l_pairEntropy l, deriv = replicate (getNumberOfAtoms env) 0, virial = 0 \<rparr>
          else
            \<lparr> pairEntropy = l_pairEntropy l,
              deriv = map (\<lambda>a. scaleV (if serial cfg then real (comm_size env) else 1)
                                  (atomDeriv cfg l a)) [0..<getNumberOfAtoms env],
              virial = (if density_given cfg < 0 then positionVirial cfg l + volumeVirial cfg l
                        else positionVirial cfg l) \<rparr>)"
proof (cases "doNotCalculateDerivatives env")
  case True
  then show ?thesis by (simp add: calculate_def calculateLocal_eq [OF vs])
next
  case False
  let ?n = "getNumberOfAtoms env"
  let ?P = "comm_size env"
  let ?S = "\<lambda>r. set (strided (if serial cfg then 0 else r) (if serial cfg then 1 else ?P) ?n)"
  let ?vir = "if density_given cfg < 0 then positionVirial cfg l + volumeVirial cfg l
              else positionVirial cfg l"
  let ?out = "\<lambda>r. (l_object l, \<lparr> pairEntropy = l_pairEntropy l,
        deriv = map (\<lambda>a. if a \<in> ?S r then atomDeriv cfg l a else 0) [0..<?n],
        virial = ?vir \<rparr>)"
  have loc: "calculateLocal cfg env r = Inr (?out r)" for r
    using False by (simp add: calculateLocal_eq [OF vs])
  have all: "allRanks (map (calculateLocal cfg env) [0..<?P]) = Inr (map ?out [0..<?P])"
    by (rule allRanks_all_Inr) (rule loc)
  have d: "comm_Sum ?n (map (\<lambda>x. deriv (snd x)) (map ?out [0..<?P]))
        = map (\<lambda>a. scaleV (if serial cfg then real ?P else 1) (atomDeriv cfg l a)) [0..<?n]"
  proof (rule nth_equalityI)
    show "length (comm_Sum ?n (map (\<lambda>x. deriv (snd x)) (map ?out [0..<?P])))
        = length (map (\<lambda>a. scaleV (if serial cfg then real ?P else 1) (atomDeriv cfg l a)) [0..<?n])"
      by simp
  next
    fix a
    assume "a < length (comm_Sum ?n (map (\<lambda>x. deriv (snd x)) (map ?out [0..<?P])))"
    then have a: "a < ?n" by simp
    have "comm_Sum ?n (map (\<lambda>x. deriv (snd x)) (map ?out [0..<?P])) ! a
        = (\<Sum>r\<leftarrow>[0..<?P]. if a \<in> ?S r then atomDeriv cfg l a else 0)"
      using a by (simp add: nth_comm_Sum o_def cong: if_cong)
    also have "\<dots> = scaleV (if serial cfg then real ?P else 1) (atomDeriv cfg l a)"
    proof (cases "serial cfg")
      case True
      then show ?thesis using a by (simp add: strided_one sum_list_const_Vector)
    next
      case False
      then show ?thesis using a P by (simp add: sum_list_rank_indicator)
    qed
    finally show "comm_Sum ?n (map (\<lambda>x. deriv (snd x)) (map ?out [0..<?P])) ! a
        = map (\<lambda>a. scaleV (if serial cfg then real ?P else 1) (atomDeriv cfg l a)) [0..<?n] ! a"
      using a by simp
  qed
  have c: "calculate cfg env = Inr (fst (?out (comm_rank env)),
      (snd (?out (comm_rank env)))\<lparr>deriv :=
          comm_Sum ?n (map (\<lambda>x. deriv (snd x)) (map ?out [0..<?P]))\<rparr>)"
    using False by (simp only: calculate_def loc all bindE_simps if_False)
  show ?thesis unfolding c d using False by simp
qed

lemma serial_parallel_outputs:
  assumes "\<not> doneigh cfg" and "0 < comm_size env"
  shows "map_sum id snd (calculate (cfg\<lparr>serial := False\<rparr>) env)
       = map_sum id snd (calculate (cfg\<lparr>serial := True\<rparr>) (env\<lparr>comm_size := 1, comm_rank := 0\<rparr>))"
proof (cases "valueStage (cfg\<lparr>serial := True\<rparr>) env 0")
  case (Inl e)
  have "calculate (cfg\<lparr>serial := False\<rparr>) env = Inl e"
    by (rule calculate_fail) (simp add: valueStage_parallel_serial [OF assms] Inl)
  moreover have "calculate (cfg\<lparr>serial := True\<rparr>) (env\<lparr>comm_size := 1, comm_rank := 0\<rparr>) = Inl e"
    by (rule calculate_fail) (simp add: valueStage_serial_any [OF assms(1)] Inl)
  ultimately show ?thesis by simp
next
  case (Inr l)
  let ?l' = "l\<lparr>l_object := (l_object l)\<lparr>serial := False\<rparr>\<rparr>"
  have p: "valueStage (cfg\<lparr>serial := False\<rparr>) env r = Inr ?l'" for r
    by (simp add: valueStage_parallel_serial [OF assms] Inr)
  have s: "valueStage (cfg\<lparr>serial := True\<rparr>) (env\<lparr>comm_size := 1, comm_rank := 0\<rparr>) r = Inr l" for r
    by (simp add: valueStage_serial_any [OF assms(1)] Inr)
  show ?thesis
    using calculate_uniform [of "cfg\<lparr>serial := False\<rparr>" env ?l', OF p assms(2)]
      calculate_uniform [of "cfg\<lparr>serial := True\<rparr>" "env\<lparr>comm_size := 1, comm_rank := 0\<rparr>" l, OF s]
    by simp
qed

lemma serial_group_outputs:
  assumes "\<not> doneigh cfg" and "0 < comm_size env" and "\<not> doNotCalculateDerivatives env"
  shows "map_sum id snd (calculate (cfg\<lparr>serial := True\<rparr>) env)
       = map_sum id (\<lambda>res. (snd res)\<lparr>deriv := map (scaleV (real (comm_size env))) (deriv (snd res))\<rparr>)
           (calculate (cfg\<lparr>serial := True\<rparr>) (env\<lparr>comm_size := 1, comm_rank := 0\<rparr>))"
proof (cases "valueStage (cfg\<lparr>serial := True\<rparr>) env 0")
  case (Inl e)
  have "calculate (cfg\<lparr>serial := True\<rparr>) env = Inl e"
    by (rule calculate_fail) (simp only: valueStage_serial_rank [OF assms(1), of env "comm_rank env"] Inl)
  moreover have "calculate (cfg\<lparr>serial := True\<rparr>) (env\<lparr>comm_size := 1, comm_rank := 0\<rparr>) = Inl e"
    by (rule calculate_fail) (simp add: valueStage_serial_any [OF assms(1)] Inl)
  ultimately show ?thesis by simp
next
  case (Inr l)
  have p: "valueStage (cfg\<lparr>serial := True\<rparr>) env r = Inr l" for r
    by (simp only: valueStage_serial_rank [OF assms(1), of env r] Inr)
  have s: "valueStage (cfg\<lparr>serial := True\<rparr>) (env\<lparr>comm_size := 1, comm_rank := 0\<rparr>) r = Inr l" for r
    by (simp add: valueStage_serial_any [OF assms(1)] Inr)
  let ?n = "getNumberOfAtoms env"
  let ?vir = "if density_given cfg < 0 then positionVirial cfg l + volumeVirial cfg l
              else positionVirial cfg l"
  have a: "calculate (cfg\<lparr>serial := True\<rparr>) env =
      Inr (l_object l, \<lparr> pairEntropy = l_pairEntropy l,
              deriv = map (\<lambda>a. scaleV (real (comm_size env)) (atomDeriv cfg l a)) [0..<?n],
              virial = ?vir \<rparr>)"
    using calculate_uniform [of "cfg\<lparr>serial := True\<rparr>" env l, OF p assms(2)] assms(3)
    by simp
  have b: "calculate (cfg\<lparr>serial := True\<rparr>) (env\<lparr>comm_size := 1, comm_rank := 0\<rparr>) =
      Inr (l_object l, \<lparr> pairEntropy = l_pairEntropy l,
              deriv = map (atomDeriv cfg l) [0..<?n],
              virial = ?vir \<rparr>)"
    using calculate_uniform [of "cfg\<lparr>serial := True\<rparr>" "env\<lparr>comm_size := 1, comm_rank := 0\<rparr>" l, OF s]
      assms(3)
    by simp
  show ?thesis unfolding a b by (simp add: o_def)
qed

lemma calculate_deriv_sum:
  assumes "calculate cfg env = Inr res"
  shows "sum_list (deriv (snd res)) = 0"
proof -
  let ?n = "getNumberOfAtoms env"
  let ?P = "comm_size env"
  from assms obtain res0 where loc0: "calculateLocal cfg env (comm_rank env) = Inr res0"
    by (auto simp add: calculate_def bindE_Inr_iff)
  then obtain l0 where l0: "valueStage cfg env (comm_rank env) = Inr l0"
    using calculateLocal_Inr by blast
  show ?thesis
  proof (cases "doNotCalculateDerivatives env")
    case True
    then have "res = res0" using assms loc0 by (simp add: calculate_def)
    then show ?thesis using loc0 True by (auto simp add: calculateLocal_eq [OF l0])
  next
    case nd: False
    from assms loc0 nd obtain all where
      all: "allRanks (map (calculateLocal cfg env) [0..<?P]) = Inr all"
      and res: "res = (fst res0, (snd res0)\<lparr>deriv := comm_Sum ?n (map (\<lambda>x. deriv (snd x)) all)\<rparr>)"
      by (auto simp add: calculate_def bindE_Inr_iff)
    have len: "length all = ?P" and each: "\<And>i. i < ?P \<Longrightarrow> calculateLocal cfg env i = Inr (all ! i)"
      using allRanks_map_Inr [OF all] by simp_all
    show ?thesis
    proof (cases "serial cfg")
      case False
      show ?thesis
      proof (cases "0 < ?P")
        case False
        then have "all = []" using len by simp
        then show ?thesis by (simp add: res comm_Sum_def)
      next
        case True
        have u: "valueStage cfg env r = Inr l0" for r
          using valueStage_parallel [OF \<open>\<not> serial cfg\<close>, of env r "comm_rank env"] l0 by simp
        have b: "balanced (nhist cfg) ?n (l_accum l0)" and h: "0 < nhist cfg"
          using valueStage_facts [OF l0] by simp_all
        have "deriv (snd res) = map (atomDeriv cfg l0) [0..<?n]"
          using calculate_uniform [OF u True] assms nd \<open>\<not> serial cfg\<close> by simp
        then show ?thesis
          using sum_atomDeriv_zero [OF b h] by (simp add: sum_list_map_upt)
      qed
    next
      case True
      have z: "sum_list (deriv (snd x)) = 0 \<and> length (deriv (snd x)) = ?n" if "x \<in> set all" for x
      proof -
        from that obtain i where i: "i < ?P" "x = all ! i"
          using len by (auto simp add: in_set_conv_nth)
        from each [OF i(1)] obtain l where l: "valueStage cfg env i = Inr l"
          using calculateLocal_Inr by blast
        have b: "balanced (nhist cfg) ?n (l_accum l)" and h: "0 < nhist cfg"
          using valueStage_facts [OF l] by simp_all
        have "map (\<lambda>a. if a \<in> set (strided 0 1 ?n) then atomDeriv cfg l a else 0) [0..<?n]
            = map (atomDeriv cfg l) [0..<?n]"
          by (rule map_cong) (simp_all add: strided_one)
        moreover have "calculateLocal cfg env i = Inr (l_object l,
            \<lparr> pairEntropy = l_pairEntropy l,
              deriv = map (\<lambda>a. if a \<in> set (strided 0 1 ?n) then atomDeriv cfg l a else 0) [0..<?n],
              virial = (if density_given cfg < 0 then positionVirial cfg l + volumeVirial cfg l
                        else positionVirial cfg l) \<rparr>)"
          using nd True by (simp add: calculateLocal_eq [OF l])
        then have "deriv (snd x)
            = map (\<lambda>a. if a \<in> set (strided 0 1 ?n) then atomDeriv cfg l a else 0) [0..<?n]"
          using each [OF i(1)] i(2) by simp
        ultimately have "deriv (snd x) = map (atomDeriv cfg l) [0..<?n]" by simp
        then show ?thesis using sum_atomDeriv_zero [OF b h] by (simp add: sum_list_map_upt)
      qed
      have "sum_list (comm_Sum ?n (map (\<lambda>x. deriv (snd x)) all))
          = sum_list (map sum_list (map (\<lambda>x. deriv (snd x)) all))"
        by (rule sum_list_comm_Sum) (auto simp add: z)
      also have "map sum_list (map (\<lambda>x. deriv (snd x)) all) = map (\<lambda>x. 0) all"
        by (auto simp add: z)
      finally show ?thesis by (simp add: res)
    qed
  qed
qed

subsection \<open>Two atoms half a unit apart\<close>

lemma sqrt_quarter: "sqrt (1 / 4) = 1 / 2"
  by (rule real_sqrt_unique) (simp_all add: power2_eq_square)

lemma near_accumulate:
  "accumulate (smallObject\<lparr>serial := True, density_given := dg\<rparr>) nearStep r =
     Inr \<lparr> gofr = [kernelHalf, kernelHalf],
           gofrPrime = [[Vector (kernelHalf / 2) 0 0, Vector (- kernelHalf / 2) 0 0],
                        [Vector (- kernelHalf / 2) 0 0, Vector (kernelHalf / 2) 0 0]],
           gofrVirial = [Tensor (kernelHalf / 4) 0 0 0 0 0 0 0 0,
                         Tensor (- kernelHalf / 4) 0 0 0 0 0 0 0 0] \<rparr>"
  by (simp add: accumulate_def smallObject_def nearStep_def getNumberOfAtoms_def Let_def
      addPair_def getAbsoluteIndex_def getPosition_def delta_def minus_Vector_def
      withinCutoff_def binRange_def addBin_def kernel'_def sqrt_quarter divV_def scaleV_def
      extProduct_def plus_Vector_def plus_Tensor_def zero_Vector_def zero_Tensor_def
      kernelHalf_def numeral_eq_Suc upto.simps)

lemma kernelHalf_bounds: "7 / 24 \<le> kernelHalf" "kernelHalf < 1"
proof -
  have e1: "7 / 8 \<le> exp (- (1 / 8) :: real)"
    using exp_ge_add_one_self [of "- (1 / 8) :: real"] by simp
  have e2: "exp (- (1 / 8) :: real) < 1" by simp
  have "sqrt (2 * pi) \<le> sqrt 9"
    using pi_less_4 by (intro real_sqrt_le_mono) simp
  then have s1: "sqrt (2 * pi) \<le> 3" by simp
  have "sqrt 1 < sqrt (2 * pi)"
    using pi_gt_zero pi_ge_two by (intro real_sqrt_less_mono) simp
  then have s2: "1 < sqrt (2 * pi)" by simp
  have pos: "0 < sqrt (2 * pi)" using s2 by simp
  have "7 / 24 = (7 / 8) / (3::real)" by simp
  also have "\<dots> \<le> exp (- (1 / 8)) / sqrt (2 * pi)"
    using e1 s1 pos by (intro frac_le) simp_all
  finally show "7 / 24 \<le> kernelHalf" by (simp add: kernelHalf_def)
  have "exp (- (1 / 8)) / sqrt (2 * pi) < 1 / 1"
    using e2 s2 by (intro frac_less) simp_all
  then show "kernelHalf < 1" by (simp add: kernelHalf_def)
qed

lemma g1_bounds:
  assumes "1 \<le> rho" and "rho \<le> 2"
  shows "threshold < kernelHalf / (4 * pi * rho)" and "kernelHalf / (4 * pi * rho) < 1"
proof -
  have p: "0 < 4 * pi * rho" using assms pi_gt_zero by simp
  have "4 * pi * rho \<le> 4 * 4 * 2"
    using assms pi_less_4 pi_gt_zero by (intro mult_mono) simp_all
  then have u: "4 * pi * rho \<le> 32" by simp
  have "threshold < (7 / 24) / 32" by (simp add: threshold_def)
  also have "\<dots> \<le> kernelHalf / (4 * pi * rho)"
    using kernelHalf_bounds(1) u p by (intro frac_le) simp_all
  finally show "threshold < kernelHalf / (4 * pi * rho)" .
  have "1 * 1 \<le> 4 * pi * rho"
    using assms pi_ge_two by (intro mult_mono) simp_all
  then have "1 \<le> 4 * pi * rho" by simp
  then have "kernelHalf / (4 * pi * rho) \<le> kernelHalf / 1"
    using kernelHalf_bounds(1) by (intro divide_left_mono) simp_all
  then show "kernelHalf / (4 * pi * rho) < 1" using kernelHalf_bounds(2) by simp
qed

lemma near_normalize:
  assumes "0 < rho"
  shows "normalizeGofr (smallObject\<lparr>serial := True, density_given := dg\<rparr>) nearStep
           (2 * pi * rho) nearAccum = Inr (nearNormalized rho)"
  using assms
  by (simp add: normalizeGofr_def normalizeBin_def smallObject_def nearStep_def
      getNumberOfAtoms_def nearAccum_def nearNormalized_def upt_small divV_def divT_def
      scaleV_def scaleT_def bindE_def)

lemma near_valueStage:
  assumes "density (smallObject\<lparr>serial := True, density_given := dg\<rparr>) nearStep = Inr rho"
    and "1 \<le> rho" and "rho \<le> 2"
  shows "valueStage (smallObject\<lparr>serial := True, density_given := dg\<rparr>) nearStep r
           = Inr (nearLocals (smallObject\<lparr>serial := True, density_given := dg\<rparr>) rho)"
proof -
  let ?cfg = "smallObject\<lparr>serial := True, density_given := dg\<rparr>"
  have red: "reduce ?cfg nearStep r = Inr nearAccum"
    by (simp add: reduce_def near_accumulate nearAccum_def)
  have nrm: "normalizeGofr ?cfg nearStep (2 * pi * rho) nearAccum = Inr (nearNormalized rho)"
    using assms(2) by (intro near_normalize) simp
  have avg: "averageGofr ?cfg (gofr (nearNormalized rho))
      = Inr (?cfg, [kernelHalf, kernelHalf / (4 * pi * rho)])"
    by (simp add: averageGofr_def smallObject_def nearNormalized_def)
  have k: "\<not> kernelHalf < threshold"
    using kernelHalf_bounds(1) by (simp add: threshold_def)
  have g: "\<not> kernelHalf / (4 * pi * rho) < threshold"
    using g1_bounds(1) [OF assms(2,3)] by simp
  have scan: "scanGofr [kernelHalf, kernelHalf / (4 * pi * rho)] 0 0 = Inr 0"
    using k by (simp add: scanGofr_0)
  have c: "nhist ?cfg = 2" "deltar ?cfg = 1" "\<not> doReferenceGofr ?cfg" "vectorX2 ?cfg = [0, 1]"
    by (simp_all add: smallObject_def)
  have lg: "map (logGofrAt ?cfg [kernelHalf, kernelHalf / (4 * pi * rho)]) [0..<nhist ?cfg]
      = [ln kernelHalf, ln (kernelHalf / (4 * pi * rho))]"
    by (simp add: c upt_small logGofrAt_def)
  have ig: "map (integrandAt ?cfg [kernelHalf, kernelHalf / (4 * pi * rho)]) [0..<nhist ?cfg]
      = [0, kernelHalf / (4 * pi * rho) * ln (kernelHalf / (4 * pi * rho))
                          - kernelHalf / (4 * pi * rho) + 1]"
    using k g by (simp add: c upt_small integrandAt_def logGofrAt_def)
  have it: "integrate [0, kernelHalf / (4 * pi * rho) * ln (kernelHalf / (4 * pi * rho))
                          - kernelHalf / (4 * pi * rho) + 1] (deltar ?cfg)
      = Inr ((kernelHalf / (4 * pi * rho) * ln (kernelHalf / (4 * pi * rho))
                          - kernelHalf / (4 * pi * rho) + 1) / 2)"
    by (simp add: integrate_def c)
  show ?thesis
    unfolding valueStage_def red assms(1) bindE_simps Let_def nrm avg snd_conv fst_conv scan lg ig it
    by (simp add: nearLocals_def)
qed

lemma near_atomDeriv:
  assumes "1 \<le> rho" and "rho \<le> 2"
    and "nhist cfg = 2" and "deltar cfg = 1" and "vectorX2 cfg = [0, 1]"
  shows "atomDeriv cfg (nearLocals cfg' rho) 0
           = Vector (kernelHalf * ln (kernelHalf / (4 * pi * rho)) / 8) 0 0"
    and "atomDeriv cfg (nearLocals cfg' rho) 1
           = Vector (- (kernelHalf * ln (kernelHalf / (4 * pi * rho)) / 8)) 0 0"
proof -
  have k: "threshold < kernelHalf"
    using kernelHalf_bounds(1) by (simp add: threshold_def)
  have g: "threshold < kernelHalf / (4 * pi * rho)"
    using g1_bounds(1) [OF assms(1,2)] .
  have r: "rho \<noteq> 0" using assms(1) by simp
  have id: "integrandDerivatives cfg (nearNormalized rho) [kernelHalf, kernelHalf / (4 * pi * rho)]
        [ln kernelHalf, ln (kernelHalf / (4 * pi * rho))] 0 j
      = [0, scaleV 1 (scaleV (ln (kernelHalf / (4 * pi * rho)))
               (gofrPrime (nearNormalized rho) ! 1 ! j))]" for j
    using k g by (simp add: integrandDerivatives_def assms(3,5) upt_small scaleV_def zero_Vector_def numeral_2_eq_2)
  show "atomDeriv cfg (nearLocals cfg' rho) 0
           = Vector (kernelHalf * ln (kernelHalf / (4 * pi * rho)) / 8) 0 0"
    unfolding atomDeriv_def nearLocals_def Locals.simps id
    using r by (simp add: trapezoidV_def assms(4) nearNormalized_def
        scaleV_def plus_Vector_def zero_Vector_def field_simps)
  show "atomDeriv cfg (nearLocals cfg' rho) 1
           = Vector (- (kernelHalf * ln (kernelHalf / (4 * pi * rho)) / 8)) 0 0"
    unfolding atomDeriv_def nearLocals_def Locals.simps id
    using r by (simp add: trapezoidV_def assms(4) nearNormalized_def
        scaleV_def plus_Vector_def zero_Vector_def field_simps)
qed

lemma near_gradient_nonzero:
  assumes "1 \<le> rho" and "rho \<le> 2"
  shows "kernelHalf * ln (kernelHalf / (4 * pi * rho)) / 8 \<noteq> 0"
proof -
  have "0 < kernelHalf" using kernelHalf_bounds(1) by simp
  moreover have "0 < kernelHalf / (4 * pi * rho)"
    using g1_bounds(1) [OF assms] by (simp add: threshold_def less_trans [rotated])
  then have "ln (kernelHalf / (4 * pi * rho)) < 0"
    using g1_bounds(2) [OF assms] by simp
  ultimately show ?thesis by simp
qed

lemma near_positionVirial:
  assumes "1 \<le> rho" and "rho \<le> 2"
    and "nhist cfg = 2" and "deltar cfg = 1" and "vectorX2 cfg = [0, 1]"
  shows "positionVirial cfg (nearLocals cfg' rho) = Tensor (nearGradient rho / 2) 0 0 0 0 0 0 0 0"
proof -
  have k: "threshold < kernelHalf"
    using kernelHalf_bounds(1) by (simp add: threshold_def)
  have g: "threshold < kernelHalf / (4 * pi * rho)"
    using g1_bounds(1) [OF assms(1,2)] .
  have r: "rho \<noteq> 0" using assms(1) by simp
  have iv: "integrandVirial cfg (nearNormalized rho) [kernelHalf, kernelHalf / (4 * pi * rho)]
        [ln kernelHalf, ln (kernelHalf / (4 * pi * rho))] 0
      = [0, scaleT 1 (scaleT (ln (kernelHalf / (4 * pi * rho)))
               (gofrVirial (nearNormalized rho) ! 1))]"
    using k g by (simp add: integrandVirial_def assms(3,5) upt_small scaleT_def zero_Tensor_def
        numeral_2_eq_2)
  show ?thesis
    unfolding positionVirial_def nearLocals_def Locals.simps iv
    using r by (simp add: trapezoidT_def assms(4) nearNormalized_def nearGradient_def
        scaleT_def plus_Tensor_def zero_Tensor_def field_simps)
qed

lemma near_volumeVirial:
  assumes "nhist cfg = 2" and "deltar cfg = 1" and "vectorX2 cfg = [0, 1]"
    and "\<not> doReferenceGofr cfg"
  shows "volumeVirial cfg (nearLocals cfg' rho) = nearVolumeVirial rho"
  unfolding volumeVirial_def nearLocals_def Locals.simps
  by (simp add: integrandVirialVolume_def assms upt_small trapezoid_def nearVolumeVirial_def)

lemma scaleT_identity_nonzero: "c \<noteq> 0 \<Longrightarrow> scaleT c identity \<noteq> 0"
  by (simp add: scaleT_def identity_def zero_Tensor_def)

lemma nearVolumeVirial_nonzero:
  assumes "1 \<le> rho" and "rho \<le> 2"
  shows "nearVolumeVirial rho \<noteq> 0"
proof -
  have "0 < (1 - kernelHalf / (4 * pi * rho)) / 2" using g1_bounds(2) [OF assms] by simp
  moreover have "0 < 2 * pi * rho" using assms(1) by simp
  ultimately have "0 < 2 * pi * rho * ((1 - kernelHalf / (4 * pi * rho)) / 2)"
    by (rule mult_pos_pos [rotated])
  then have "- (2 * pi * rho * ((1 - kernelHalf / (4 * pi * rho)) / 2)) < 0"
    by (simp only: neg_less_0_iff_less)
  then have "- (2 * pi * rho) * ((1 - kernelHalf / (4 * pi * rho)) / 2) \<noteq> 0"
    by (metis less_irrefl mult_minus_left)
  then show ?thesis
    unfolding nearVolumeVirial_def by (rule scaleT_identity_nonzero)
qed

lemma nearGradient_nonzero:
  assumes "1 \<le> rho" and "rho \<le> 2"
  shows "nearGradient rho \<noteq> 0"
  unfolding nearGradient_def using assms by (rule near_gradient_nonzero)

lemma near_calculate:
  assumes "density (smallObject\<lparr>serial := True, density_given := dg\<rparr>) nearStep = Inr rho"
    and "1 \<le> rho" and "rho \<le> 2"
  shows "calculate (smallObject\<lparr>serial := True, density_given := dg\<rparr>) nearStep =
     Inr (smallObject\<lparr>serial := True, density_given := dg\<rparr>,
          \<lparr> pairEntropy = nearEntropy rho,
            deriv = [Vector (nearGradient rho) 0 0, Vector (- nearGradient rho) 0 0],
            virial = (if dg < 0
                      then Tensor (nearGradient rho / 2) 0 0 0 0 0 0 0 0 + nearVolumeVirial rho
                      else Tensor (nearGradient rho / 2) 0 0 0 0 0 0 0 0) \<rparr>)"
proof -
  let ?cfg = "smallObject\<lparr>serial := True, density_given := dg\<rparr>"
  have c: "nhist ?cfg = 2" "deltar ?cfg = 1" "vectorX2 ?cfg = [0, 1]" "\<not> doReferenceGofr ?cfg"
    "serial ?cfg" "density_given ?cfg = dg"
    by (simp_all add: smallObject_def)
  have e: "0 < comm_size nearStep" "comm_size nearStep = 1" "\<not> doNotCalculateDerivatives nearStep"
    "getNumberOfAtoms nearStep = 2"
    by (simp_all add: nearStep_def getNumberOfAtoms_def)
  have vs: "\<And>r. valueStage ?cfg nearStep r = Inr (nearLocals ?cfg rho)"
    using assms by (rule near_valueStage)
  have l: "l_object (nearLocals ?cfg rho) = ?cfg"
    "l_pairEntropy (nearLocals ?cfg rho) = nearEntropy rho"
    by (simp_all add: nearLocals_def nearEntropy_def)
  show ?thesis
    unfolding calculate_uniform [OF vs e(1)] l
    by (simp add: c e upt_small near_atomDeriv [OF assms(2,3) c(1,2,3)]
        near_atomDeriv(2) [OF assms(2,3) c(1,2,3), unfolded One_nat_def]
        near_positionVirial [OF assms(2,3) c(1,2,3)] near_volumeVirial [OF c(1,2,3,4)]
        nearGradient_def)
qed

lemma near_density:
  "density (smallObject\<lparr>serial := True, density_given := 1\<rparr>) nearStep = Inr 1"
  "density (smallObject\<lparr>serial := True, density_given := 0\<rparr>) nearStep = Inr 2"
  "density (smallObject\<lparr>serial := True, density_given := - 1\<rparr>) nearStep = Inr 2"
  by (simp_all add: density_def smallObject_def nearStep_def getNumberOfAtoms_def
      determinant_def identity_def)

lemma serial_one: "smallObject\<lparr>serial := True, density_given := 1\<rparr> = smallObject\<lparr>serial := True\<rparr>"
  by (simp add: smallObject_def)

lemma near_calculate_one:
  "calculate (smallObject\<lparr>serial := True\<rparr>) nearStep =
     Inr (smallObject\<lparr>serial := True\<rparr>,
          \<lparr> pairEntropy = nearEntropy 1,
            deriv = [Vector (nearGradient 1) 0 0, Vector (- nearGradient 1) 0 0],
            virial = Tensor (nearGradient 1 / 2) 0 0 0 0 0 0 0 0 \<rparr>)"
  using near_calculate [OF near_density(1)] by (simp add: serial_one)

lemma two_processes: "nearStep\<lparr>comm_size := 2\<rparr>\<lparr>comm_size := 1, comm_rank := 0\<rparr> = nearStep"
  by (simp add: nearStep_def)

lemma near_parallel:
  "map_sum id snd (calculate smallObject (nearStep\<lparr>comm_size := 2\<rparr>)) =
     Inr \<lparr> pairEntropy = nearEntropy 1,
           deriv = [Vector (nearGradient 1) 0 0, Vector (- nearGradient 1) 0 0],
           virial = Tensor (nearGradient 1 / 2) 0 0 0 0 0 0 0 0 \<rparr>"
proof -
  have s: "smallObject = smallObject\<lparr>serial := False\<rparr>" by (simp add: smallObject_def)
  have d: "\<not> doneigh smallObject" by (simp add: smallObject_def)
  have p: "0 < comm_size (nearStep\<lparr>comm_size := 2\<rparr>)" by simp
  have "map_sum id snd (calculate (smallObject\<lparr>serial := False\<rparr>) (nearStep\<lparr>comm_size := 2\<rparr>))
      = map_sum id snd (calculate (smallObject\<lparr>serial := True\<rparr>) nearStep)"
    using serial_parallel_outputs [of smallObject "nearStep\<lparr>comm_size := 2\<rparr>", OF d p]
    unfolding two_processes .
  then show ?thesis unfolding s [symmetric] near_calculate_one by simp
qed

lemma zero_density_ctor:
  "PairEntropy_ctor (smallOptions\<lparr>SERIAL := True, DENSITY := Some 0\<rparr>)
     = Inr (smallObject\<lparr>serial := True, density_given := 0\<rparr>)"
  by (simp add: PairEntropy_ctor_def smallOptions_def smallObject_def Let_def parse_def
      numeral_eq_Suc upt_rec)

subsection \<open>The derivatives sum to zero\<close>

lemma balanced_rows:
  assumes "balanced h n acc" and "k < h"
  shows "sum_list (gofrPrime acc ! k) = 0"
proof -
  from assms(1) have l: "length (gofrPrime acc) = h" and s: "rowSums acc = replicate h 0"
    by (simp_all add: balanced_def dims_def)
  have "sum_list (gofrPrime acc ! k) = rowSums acc ! k"
    using assms(2) l by (simp add: rowSums_def)
  also have "\<dots> = 0" using assms(2) by (simp add: s)
  finally show ?thesis .
qed

text \<open>
  Claim C10, amended, over exact real arithmetic. On every process, when the pair loops end
  without a division by zero (no two distinct atoms at distance zero) and without a pair
  index out of range, each row of \<^verbatim>\<open>gofrPrime\<close> (one bin, all atoms) sums to the
  zero vector; the same holds after the reduction and after a normalisation that divides
  by no zero, whatever the normalisation constant; and whenever \<^verbatim>\<open>calculate\<close>
  completes without such an event the per-atom derivatives it reports sum to the zero
  vector. The witness is the step of two atoms half a unit apart, where the derivatives
  are not zero. The counterexample to the unconditional claim is a step with two atoms at
  the same position, where the versor is a division by zero and no finite arrays result;
  likewise a box of volume zero without DENSITY.
\<close>

theorem gradient_sums_to_zero:
  "(accumulate cfg env r = Inr acc \<longrightarrow> (\<forall>k<nhist cfg. sum_list (gofrPrime acc ! k) = 0))
   \<and> (reduce cfg env r = Inr red \<longrightarrow> (\<forall>k<nhist cfg. sum_list (gofrPrime red ! k) = 0))
   \<and> (reduce cfg env r = Inr red \<and> normalizeGofr cfg env t red = Inr nrm
        \<longrightarrow> (\<forall>k<nhist cfg. sum_list (gofrPrime nrm ! k) = 0))
   \<and> (calculate cfg env = Inr res \<longrightarrow> sum_list (deriv (snd res)) = 0)"
proof (intro conjI impI allI)
  fix k assume "accumulate cfg env r = Inr acc" and k: "k < nhist cfg"
  then have "balanced (nhist cfg) (getNumberOfAtoms env) acc" by (intro accumulate_balanced)
  then show "sum_list (gofrPrime acc ! k) = 0" using k by (rule balanced_rows)
next
  fix k assume "reduce cfg env r = Inr red" and k: "k < nhist cfg"
  then have "balanced (nhist cfg) (getNumberOfAtoms env) red" by (intro reduce_balanced)
  then show "sum_list (gofrPrime red ! k) = 0" using k by (rule balanced_rows)
next
  fix k assume a: "reduce cfg env r = Inr red \<and> normalizeGofr cfg env t red = Inr nrm"
    and k: "k < nhist cfg"
  from a have red: "reduce cfg env r = Inr red"
    and nrm: "normalizeGofr cfg env t red = Inr nrm" by simp_all
  from red have "balanced (nhist cfg) (getNumberOfAtoms env) red" by (rule reduce_balanced)
  then have "balanced (nhist cfg) (getNumberOfAtoms env) nrm"
    using nrm by (rule normalizeGofr_balanced)
  then show "sum_list (gofrPrime nrm ! k) = 0" using k by (rule balanced_rows)
next
  assume "calculate cfg env = Inr res"
  then show "sum_list (deriv (snd res)) = 0" by (rule calculate_deriv_sum)
qed

theorem gradient_sums_to_zero_witness:
  "accumulate (smallObject\<lparr>serial := True\<rparr>) nearStep 0 = Inr nearAccum
   \<and> reduce (smallObject\<lparr>serial := True\<rparr>) nearStep 0 = Inr nearAccum
   \<and> normalizeGofr (smallObject\<lparr>serial := True\<rparr>) nearStep (2 * pi * 1) nearAccum
       = Inr (nearNormalized 1)
   \<and> calculate (smallObject\<lparr>serial := True\<rparr>) nearStep =
       Inr (smallObject\<lparr>serial := True\<rparr>,
            \<lparr> pairEntropy = nearEntropy 1,
              deriv = [Vector (nearGradient 1) 0 0, Vector (- nearGradient 1) 0 0],
              virial = Tensor (nearGradient 1 / 2) 0 0 0 0 0 0 0 0 \<rparr>)
   \<and> sum_list (gofrPrime nearAccum ! 0) = 0 \<and> sum_list (gofrPrime nearAccum ! 1) = 0
   \<and> sum_list (gofrPrime (nearNormalized 1) ! 0) = 0
   \<and> sum_list (gofrPrime (nearNormalized 1) ! 1) = 0
   \<and> sum_list [Vector (nearGradient 1) 0 0, Vector (- nearGradient 1) 0 0] = 0
   \<and> nearGradient 1 \<noteq> 0"
proof -
  let ?cfg = "smallObject\<lparr>serial := True\<rparr>"
  have a: "accumulate ?cfg nearStep 0 = Inr nearAccum"
    using near_accumulate [of 1 0] by (simp add: serial_one nearAccum_def)
  have r: "reduce ?cfg nearStep 0 = Inr nearAccum"
    by (simp add: reduce_def a)
  have n: "normalizeGofr ?cfg nearStep (2 * pi * 1) nearAccum = Inr (nearNormalized 1)"
    using near_normalize [of 1 1] by (simp add: serial_one)
  have h: "nhist ?cfg = 2" by (simp add: smallObject_def)
  note c = near_calculate_one
  have g: "nearGradient 1 \<noteq> 0" by (rule nearGradient_nonzero) simp_all
  note t = gradient_sums_to_zero [of ?cfg nearStep 0 nearAccum nearAccum "2 * pi * 1"
      "nearNormalized 1"
      "(?cfg, \<lparr> pairEntropy = nearEntropy 1,
              deriv = [Vector (nearGradient 1) 0 0, Vector (- nearGradient 1) 0 0],
              virial = Tensor (nearGradient 1 / 2) 0 0 0 0 0 0 0 0 \<rparr>)"]
  from t a have "\<forall>k<nhist ?cfg. sum_list (gofrPrime nearAccum ! k) = 0" by blast
  then have s1: "sum_list (gofrPrime nearAccum ! 0) = 0" "sum_list (gofrPrime nearAccum ! 1) = 0"
    by (simp_all add: h)
  from t r n have "\<forall>k<nhist ?cfg. sum_list (gofrPrime (nearNormalized 1) ! k) = 0" by blast
  then have s2: "sum_list (gofrPrime (nearNormalized 1) ! 0) = 0"
    "sum_list (gofrPrime (nearNormalized 1) ! 1) = 0"
    by (simp_all add: h)
  from t c have s3: "sum_list [Vector (nearGradient 1) 0 0, Vector (- nearGradient 1) 0 0] = 0"
    by simp
  show ?thesis using a r n c s1 s2 s3 g by blast
qed

lemma addPair_box: "addPair cfg (env\<lparr>box := b\<rparr>) = addPair cfg env"
  by (rule ext)+
    (simp add: addPair_def getNumberOfAtoms_def getAbsoluteIndex_def getPosition_def Let_def
      cong: if_cong option.case_cong)

theorem coincident_atoms_not_finite:
  "accumulate smallObject coincidentStep 0 = Inl NonFinite
   \<and> calculate smallObject coincidentStep = Inl NonFinite
   \<and> density (smallObject\<lparr>density_given := - 1\<rparr>) (nearStep\<lparr>box := 0\<rparr>) = Inl NonFinite
   \<and> calculate (smallObject\<lparr>serial := True, density_given := - 1\<rparr>) (nearStep\<lparr>box := 0\<rparr>)
       = Inl NonFinite"
proof -
  have a: "accumulate smallObject coincidentStep 0 = Inl NonFinite"
    by (simp add: accumulate_def smallObject_def coincidentStep_def getNumberOfAtoms_def Let_def
        addPair_def getAbsoluteIndex_def getPosition_def delta_def minus_Vector_def
        withinCutoff_def zero_Vector_def numeral_eq_Suc upto.simps)
  have e: "\<not> serial smallObject" "comm_size coincidentStep = 1" "comm_rank coincidentStep = 0"
    by (simp_all add: smallObject_def coincidentStep_def)
  have "reduce smallObject coincidentStep 0 = Inl NonFinite"
    by (simp add: reduce_def a e upt_small)
  then have "valueStage smallObject coincidentStep (comm_rank coincidentStep) = Inl NonFinite"
    by (simp add: valueStage_def e)
  then have c: "calculate smallObject coincidentStep = Inl NonFinite" by (rule calculate_fail)
  have d: "density (smallObject\<lparr>density_given := - 1\<rparr>) (nearStep\<lparr>box := 0\<rparr>) = Inl NonFinite"
    by (simp add: density_def determinant_def zero_Tensor_def)
  have d': "density (smallObject\<lparr>serial := True, density_given := - 1\<rparr>) (nearStep\<lparr>box := 0\<rparr>)
      = Inl NonFinite"
    by (simp add: density_def determinant_def zero_Tensor_def)
  have "accumulate (smallObject\<lparr>serial := True, density_given := - 1\<rparr>) (nearStep\<lparr>box := 0\<rparr>) r
      = accumulate (smallObject\<lparr>serial := True, density_given := - 1\<rparr>) nearStep r" for r
    by (simp add: accumulate_def getNumberOfAtoms_def addPair_box Let_def)
  then have r: "reduce (smallObject\<lparr>serial := True, density_given := - 1\<rparr>) (nearStep\<lparr>box := 0\<rparr>) 0
      = Inr nearAccum"
    by (simp add: reduce_def near_accumulate nearAccum_def)
  have cr: "comm_rank (nearStep\<lparr>box := 0\<rparr>) = 0" by (simp add: nearStep_def)
  have "valueStage (smallObject\<lparr>serial := True, density_given := - 1\<rparr>) (nearStep\<lparr>box := 0\<rparr>)
      (comm_rank (nearStep\<lparr>box := 0\<rparr>)) = Inl NonFinite"
    by (simp add: valueStage_def cr r d')
  then have c': "calculate (smallObject\<lparr>serial := True, density_given := - 1\<rparr>) (nearStep\<lparr>box := 0\<rparr>)
       = Inl NonFinite" by (rule calculate_fail)
  show ?thesis using a c d c' by simp
qed

subsection \<open>SERIAL on a group of processes\<close>

text \<open>
  Claim C2, for the all-pairs loops. On a group of \<open>comm_size\<close> processes the run with
  SERIAL and the run without it fail alike and report the same pair entropy and the same
  virial, but the derivatives of the SERIAL run are those of the parallel run multiplied by
  \<open>comm_size\<close>: \<^verbatim>\<open>comm.Sum(&deriv[0][0],3*getNumberOfAtoms())\<close> is not guarded
  by \<^verbatim>\<open>if(!serial)\<close>, so it adds the complete copies of all the processes. The two
  runs agree on one process. At the failing input, two processes and two atoms half a
  unit apart, the derivatives are not zero, so those of the SERIAL run are twice those of the
  parallel run and differ from them.
\<close>

theorem serial_group_scales_gradient:
  assumes "\<not> doneigh cfg" and "0 < comm_size env" and "\<not> doNotCalculateDerivatives env"
  shows "map_sum id snd (calculate (cfg\<lparr>serial := True\<rparr>) env)
       = map_sum id (\<lambda>out. out\<lparr>deriv := map (scaleV (real (comm_size env))) (deriv out)\<rparr>)
           (map_sum id snd (calculate (cfg\<lparr>serial := False\<rparr>) env))"
  unfolding serial_parallel_outputs [OF assms(1,2)] serial_group_outputs [OF assms]
  by (cases "calculate (cfg\<lparr>serial := True\<rparr>) (env\<lparr>comm_size := 1, comm_rank := 0\<rparr>)")
    simp_all

theorem serial_group_scales_gradient_witness:
  "map_sum id snd (calculate smallObject (nearStep\<lparr>comm_size := 2\<rparr>)) =
     Inr \<lparr> pairEntropy = nearEntropy 1,
           deriv = [Vector (nearGradient 1) 0 0, Vector (- nearGradient 1) 0 0],
           virial = Tensor (nearGradient 1 / 2) 0 0 0 0 0 0 0 0 \<rparr>
   \<and> map_sum id snd (calculate (smallObject\<lparr>serial := True\<rparr>) (nearStep\<lparr>comm_size := 2\<rparr>)) =
     Inr \<lparr> pairEntropy = nearEntropy 1,
           deriv = [Vector (2 * nearGradient 1) 0 0, Vector (- (2 * nearGradient 1)) 0 0],
           virial = Tensor (nearGradient 1 / 2) 0 0 0 0 0 0 0 0 \<rparr>
   \<and> nearGradient 1 \<noteq> 0 \<and> 2 * nearGradient 1 \<noteq> nearGradient 1"
proof -
  have s: "smallObject\<lparr>serial := False\<rparr> = smallObject" by (simp add: smallObject_def)
  have e: "\<not> doneigh smallObject" "0 < comm_size (nearStep\<lparr>comm_size := 2\<rparr>)"
    "\<not> doNotCalculateDerivatives (nearStep\<lparr>comm_size := 2\<rparr>)"
    "real (comm_size (nearStep\<lparr>comm_size := 2\<rparr>)) = 2"
    by (simp_all add: smallObject_def nearStep_def)
  have g: "nearGradient 1 \<noteq> 0" by (rule nearGradient_nonzero) simp_all
  have "map_sum id snd (calculate (smallObject\<lparr>serial := True\<rparr>) (nearStep\<lparr>comm_size := 2\<rparr>)) =
     Inr \<lparr> pairEntropy = nearEntropy 1,
           deriv = [Vector (2 * nearGradient 1) 0 0, Vector (- (2 * nearGradient 1)) 0 0],
           virial = Tensor (nearGradient 1 / 2) 0 0 0 0 0 0 0 0 \<rparr>"
    unfolding serial_group_scales_gradient [of smallObject "nearStep\<lparr>comm_size := 2\<rparr>", OF e(1,2,3)]
      s near_parallel e(4)
    by (simp add: scaleV_def)
  then show ?thesis using near_parallel g by simp
qed

subsection \<open>The virial of the volume\<close>

text \<open>
  Claim C5. When \<^verbatim>\<open>calculate\<close> succeeds with derivatives, the density is the given
  DENSITY if \<^verbatim>\<open>density_given>0\<close> and N/V otherwise, whereas the virial of the
  volume is added if \<^verbatim>\<open>density_given<0\<close>: the two tests disagree at
  \<^verbatim>\<open>density_given = 0\<close>. At the failing input, DENSITY=0, the density is
  N/V = 2, the reported virial is the virial of the positions alone, and the virial of the
  volume that is left out is not zero.
\<close>

theorem volume_virial_condition:
  assumes "calculate cfg env = Inr res" and "\<not> doNotCalculateDerivatives env"
  shows "\<exists>l. valueStage cfg env (comm_rank env) = Inr l
          \<and> density cfg env
              = Inr (if 0 < density_given cfg then density_given cfg
                     else real (getNumberOfAtoms env) / determinant (box env))
          \<and> virial (snd res)
              = (if density_given cfg < 0 then positionVirial cfg l + volumeVirial cfg l
                 else positionVirial cfg l)"
proof -
  from assms obtain res0 where
    loc: "calculateLocal cfg env (comm_rank env) = Inr res0"
    and v: "virial (snd res) = virial (snd res0)"
    by (auto simp add: calculate_def bindE_Inr_iff)
  from loc obtain l where l: "valueStage cfg env (comm_rank env) = Inr l"
    using calculateLocal_Inr by blast
  from l obtain dens where d: "density cfg env = Inr dens"
    by (auto simp add: valueStage_def bindE_Inr_iff)
  then have "density cfg env
              = Inr (if 0 < density_given cfg then density_given cfg
                     else real (getNumberOfAtoms env) / determinant (box env))"
    by (auto simp add: density_def Let_def split: if_splits)
  moreover have "virial (snd res)
              = (if density_given cfg < 0 then positionVirial cfg l + volumeVirial cfg l
                 else positionVirial cfg l)"
    using loc assms(2) by (auto simp add: v calculateLocal_eq [OF l])
  ultimately show ?thesis using l by blast
qed

theorem volume_virial_condition_witness:
  "PairEntropy_ctor (smallOptions\<lparr>SERIAL := True, DENSITY := Some 0\<rparr>)
     = Inr (smallObject\<lparr>serial := True, density_given := 0\<rparr>)
   \<and> density (smallObject\<lparr>serial := True, density_given := 0\<rparr>) nearStep = Inr 2
   \<and> real (getNumberOfAtoms nearStep) / determinant (box nearStep) = 2
   \<and> calculate (smallObject\<lparr>serial := True, density_given := 0\<rparr>) nearStep =
       Inr (smallObject\<lparr>serial := True, density_given := 0\<rparr>,
            \<lparr> pairEntropy = nearEntropy 2,
              deriv = [Vector (nearGradient 2) 0 0, Vector (- nearGradient 2) 0 0],
              virial = Tensor (nearGradient 2 / 2) 0 0 0 0 0 0 0 0 \<rparr>)
   \<and> positionVirial (smallObject\<lparr>serial := True, density_given := 0\<rparr>)
        (nearLocals (smallObject\<lparr>serial := True, density_given := 0\<rparr>) 2)
       = Tensor (nearGradient 2 / 2) 0 0 0 0 0 0 0 0
   \<and> volumeVirial (smallObject\<lparr>serial := True, density_given := 0\<rparr>)
        (nearLocals (smallObject\<lparr>serial := True, density_given := 0\<rparr>) 2)
       = nearVolumeVirial 2
   \<and> nearVolumeVirial 2 \<noteq> 0"
proof -
  let ?cfg = "smallObject\<lparr>serial := True, density_given := 0\<rparr>"
  let ?out = "\<lparr> pairEntropy = nearEntropy 2,
              deriv = [Vector (nearGradient 2) 0 0, Vector (- nearGradient 2) 0 0],
              virial = Tensor (nearGradient 2 / 2) 0 0 0 0 0 0 0 0 \<rparr>"
  have c: "nhist ?cfg = 2" "deltar ?cfg = 1" "vectorX2 ?cfg = [0, 1]" "\<not> doReferenceGofr ?cfg"
    "density_given ?cfg = 0"
    by (simp_all add: smallObject_def)
  have e: "\<not> doNotCalculateDerivatives nearStep" "comm_rank nearStep = 0"
    by (simp_all add: nearStep_def)
  have calc: "calculate ?cfg nearStep = Inr (?cfg, ?out)"
    using near_calculate [OF near_density(2)] by simp
  have vs: "valueStage ?cfg nearStep 0 = Inr (nearLocals ?cfg 2)"
    using near_density(2) by (rule near_valueStage) simp_all
  have nv: "real (getNumberOfAtoms nearStep) / determinant (box nearStep) = 2"
    by (simp add: nearStep_def getNumberOfAtoms_def determinant_def identity_def)
  have pv: "positionVirial ?cfg (nearLocals ?cfg 2) = Tensor (nearGradient 2 / 2) 0 0 0 0 0 0 0 0"
    using volume_virial_condition [OF calc e(1)] by (simp add: e(2) vs c(5))
  have vv: "volumeVirial ?cfg (nearLocals ?cfg 2) = nearVolumeVirial 2"
    using c(1,2,3,4) by (rule near_volumeVirial)
  have nz: "nearVolumeVirial 2 \<noteq> 0" by (rule nearVolumeVirial_nonzero) simp_all
  show ?thesis using zero_density_ctor near_density(2) nv calc pv vv nz by blast
qed

subsection \<open>The first non-empty bin and the integrands\<close>

lemma scanGofr_first:
  assumes "scanGofr g 0 0 = Inr m"
  shows "length (takeWhile (\<lambda>x. x < threshold) g) < length g"
    and "threshold \<le> g ! length (takeWhile (\<lambda>x. x < threshold) g)"
    and "m = length (takeWhile (\<lambda>x. x < threshold) g) - 1"
proof -
  from assms have n: "\<not> list_all (\<lambda>x. x < threshold) g"
    and m: "m = length (takeWhile (\<lambda>x. x < threshold) g) - 1"
    by (auto simp add: scanGofr_0 split: if_splits)
  from n have "\<exists>x\<in>set g. \<not> x < threshold" by (simp add: list_all_iff)
  then show l: "length (takeWhile (\<lambda>x. x < threshold) g) < length g"
    by (induction g) auto
  then have "\<not> g ! length (takeWhile (\<lambda>x. x < threshold) g) < threshold"
    by (rule nth_length_takeWhile)
  then show "threshold \<le> g ! length (takeWhile (\<lambda>x. x < threshold) g)" by simp
  show "m = length (takeWhile (\<lambda>x. x < threshold) g) - 1" by (rule m)
qed

lemma takeWhile_below:
  assumes "k < length (takeWhile (\<lambda>x. x < threshold) g)"
  shows "g ! k < threshold"
proof -
  have "takeWhile (\<lambda>x. x < threshold) g ! k \<in> set (takeWhile (\<lambda>x. x < threshold) g)"
    using assms by (rule nth_mem)
  then have "takeWhile (\<lambda>x. x < threshold) g ! k < threshold" by (rule set_takeWhileD [THEN conjunct2])
  then show ?thesis using assms by (simp add: takeWhile_nth)
qed

text \<open>
  Claim C4, amended. When the scan of the normalised (and averaged) g(r) ends inside the
  array, the first bin that is not below \<^verbatim>\<open>1.e-10\<close> exists, every bin before it is
  below, and \<^verbatim>\<open>nhist_min\<close> is that index minus one (zero when it is bin 0): the
  last bin of the leading run below the threshold, not the first bin above it. The
  derivative integrand of every atom and the virial integrand are zero at every bin below
  \<^verbatim>\<open>nhist_min\<close> and at every bin that does not exceed the threshold (the loop body
  is guarded), so also at bin \<^verbatim>\<open>nhist_min\<close> itself; a bin below the threshold
  contributes \<open>x\<^sup>2\<close>, or the reference times \<open>x\<^sup>2\<close>, to the value integrand.
  The counterexample to the original wording is g = [0, 0, 1/2, 1]: the first bin that
  exceeds the threshold is bin 2 and the scan leaves 1.
\<close>

theorem nhist_min_scan:
  "(scanGofr g 0 0 = Inr m \<longrightarrow>
       length (takeWhile (\<lambda>x. x < threshold) g) < length g
     \<and> threshold \<le> g ! length (takeWhile (\<lambda>x. x < threshold) g)
     \<and> (\<forall>k<length (takeWhile (\<lambda>x. x < threshold) g). g ! k < threshold)
     \<and> m = length (takeWhile (\<lambda>x. x < threshold) g) - 1)
   \<and> (k < nhist cfg \<and> (k < m \<or> \<not> threshold < g ! k) \<longrightarrow>
         integrandDerivatives cfg acc g logG m a ! k = 0
       \<and> integrandVirial cfg acc g logG m ! k = 0)
   \<and> (g ! k < threshold \<longrightarrow>
         integrandAt cfg g k
           = (if doReferenceGofr cfg then referenceGofr cfg ! k * vectorX2 cfg ! k
              else vectorX2 cfg ! k))"
proof (intro conjI impI)
  assume s: "scanGofr g 0 0 = Inr m"
  show "length (takeWhile (\<lambda>x. x < threshold) g) < length g" using s by (rule scanGofr_first)
  show "threshold \<le> g ! length (takeWhile (\<lambda>x. x < threshold) g)" using s by (rule scanGofr_first)
  show "\<forall>k<length (takeWhile (\<lambda>x. x < threshold) g). g ! k < threshold"
    by (simp add: takeWhile_below)
  show "m = length (takeWhile (\<lambda>x. x < threshold) g) - 1" using s by (rule scanGofr_first)
next
  assume "k < nhist cfg \<and> (k < m \<or> \<not> threshold < g ! k)"
  then show "integrandDerivatives cfg acc g logG m a ! k = 0"
    by (auto simp add: nth_integrandDerivatives)
next
  assume "k < nhist cfg \<and> (k < m \<or> \<not> threshold < g ! k)"
  then show "integrandVirial cfg acc g logG m ! k = 0"
    by (auto simp add: nth_integrandVirial)
next
  assume "g ! k < threshold"
  then show "integrandAt cfg g k
           = (if doReferenceGofr cfg then referenceGofr cfg ! k * vectorX2 cfg ! k
              else vectorX2 cfg ! k)"
    by (simp add: integrandAt_def)
qed

theorem nhist_min_scan_witness:
  "scanGofr [0, 0, 1 / 2, 1] 0 0 = Inr 1
   \<and> length (takeWhile (\<lambda>x. x < threshold) [0, 0, 1 / 2, 1 :: real]) = 2
   \<and> integrandDerivatives (smallObject\<lparr>nhist := 4, vectorX2 := [0, 1, 4, 9]\<rparr>)
         (zeroAccum 4 2) [0, 0, 1 / 2, 1] [0, 0, ln (1 / 2), 0] 1 0 ! 1 = 0
   \<and> integrandVirial (smallObject\<lparr>nhist := 4, vectorX2 := [0, 1, 4, 9]\<rparr>)
         (zeroAccum 4 2) [0, 0, 1 / 2, 1] [0, 0, ln (1 / 2), 0] 1 ! 1 = 0
   \<and> integrandAt (smallObject\<lparr>nhist := 4, vectorX2 := [0, 1, 4, 9]\<rparr>) [0, 0, 1 / 2, 1] 1 = 1"
  using nhist_min_scan [of "[0, 0, 1 / 2, 1]" 1 1
      "smallObject\<lparr>nhist := 4, vectorX2 := [0, 1, 4, 9]\<rparr>"
      "zeroAccum 4 2" "[0, 0, ln (1 / 2), 0]" 0]
  by (simp add: scanGofr_0 threshold_def smallObject_def)

theorem nhist_min_one_less:
  "scanGofr [0, 0, 1 / 2, 1] 0 0 = Inr 1
   \<and> length (takeWhile (\<lambda>x. \<not> threshold < x) [0, 0, 1 / 2, 1 :: real]) = 2"
  by (simp add: scanGofr_0 threshold_def)

subsection \<open>The gradient and the derivative of the pair entropy\<close>

lemma modulo2_nonneg: "0 \<le> modulo2 v"
  by (simp add: modulo2_def)

lemma withinCutoff_eq:
  "withinCutoff cfg v = (if modulo2 v < rcut2 cfg then Some (modulo2 v) else None)"
proof -
  have a: "vx v * vx v \<le> vx v * vx v + vy v * vy v" by simp
  have b: "vx v * vx v + vy v * vy v \<le> vx v * vx v + vy v * vy v + vz v * vz v" by simp
  show ?thesis
  proof (cases "modulo2 v < rcut2 cfg")
    case True
    then have "vx v * vx v + vy v * vy v < rcut2 cfg"
      using b unfolding modulo2_def by (rule le_less_trans [rotated])
    moreover from this have "vx v * vx v < rcut2 cfg"
      using a by (rule le_less_trans [rotated])
    ultimately show ?thesis using True by (simp add: withinCutoff_def Let_def modulo2_def)
  next
    case False
    then show ?thesis by (simp add: withinCutoff_def Let_def modulo2_def)
  qed
qed

lemma small_binRange:
  assumes "0 \<le> d" and "d < 1"
  shows "binRange smallObject d = (0, 1)"
proof -
  have "\<lfloor>d\<rfloor> = 0" using assms by (simp add: floor_eq_iff)
  then show ?thesis by (simp add: binRange_def smallObject_def Let_def)
qed

lemma two_atoms_accumulate:
  assumes "0 < modulo2 (delta a b)" and "modulo2 (delta a b) < 1"
  shows "\<exists>acc. accumulate (smallObject\<lparr>serial := True\<rparr>) (twoAtoms a b) r = Inr acc
          \<and> gofr acc = [fst (kernel' smallObject (0 - sqrt (modulo2 (delta a b)))),
                         fst (kernel' smallObject (1 - sqrt (modulo2 (delta a b))))]"
proof -
  let ?d = "sqrt (modulo2 (delta a b))"
  have d: "0 < ?d" "?d < 1" "?d \<noteq> 0" using assms by (simp_all add: real_sqrt_lt_1_iff)
  have c: "modulo2 (delta a b) < 16" "modulo2 (delta a b) \<noteq> 0" using assms by simp_all
  have br: "binRange smallObject ?d = (0, 1)"
    using d by (intro small_binRange) simp_all
  have f: "\<not> pbc (smallObject\<lparr>serial := True\<rparr>)" "\<not> doneigh (smallObject\<lparr>serial := True\<rparr>)"
    "nhist (smallObject\<lparr>serial := True\<rparr>) = 2" "rcut2 (smallObject\<lparr>serial := True\<rparr>) = 16"
    "vectorX (smallObject\<lparr>serial := True\<rparr>) = [0, 1]" "vectorX smallObject = [0, 1]"
    by (simp_all add: smallObject_def)
  have e: "atoms (twoAtoms a b) = [(0, a), (1, b)]"
    by (simp add: twoAtoms_def)
  have u: "[0..1::int] = [0, 1]" by (simp add: upto.simps)
  have n: "[1..<2] = [1::nat]" "[0..<1] = [0::nat]" by (simp_all add: upt_small)
  show ?thesis
    by (simp add: accumulate_def getNumberOfAtoms_def Let_def e f n
        addPair_def getAbsoluteIndex_def getPosition_def withinCutoff_eq c d br u
        addBin_def numeral_2_eq_2)
qed

lemma small_kernel:
  "fst (kernel' smallObject u) = 1 / sqrt (2 * pi) * exp (- (u * u) / 2)"
  by (simp add: kernel'_def smallObject_def)

lemma small_kernel_bounds:
  assumes "\<bar>u\<bar> \<le> 1"
  shows "1 / 6 \<le> fst (kernel' smallObject u)" and "fst (kernel' smallObject u) < 1"
proof -
  have uu: "u * u \<le> 1"
    using assms by (metis abs_mult_self_eq abs_ge_zero mult_mono mult_1 zero_le_one)
  have "1 / 2 \<le> exp (- (1 / 2) :: real)"
    using exp_ge_add_one_self [of "- (1 / 2) :: real"] by simp
  also have "\<dots> \<le> exp (- (u * u) / 2)" using uu by simp
  finally have e1: "1 / 2 \<le> exp (- (u * u) / 2)" .
  have e2: "exp (- (u * u) / 2) \<le> 1" by simp
  have "sqrt (2 * pi) \<le> sqrt 9"
    using pi_less_4 by (intro real_sqrt_le_mono) simp
  then have s1: "sqrt (2 * pi) \<le> 3" by simp
  have "sqrt 1 < sqrt (2 * pi)"
    using pi_gt_zero pi_ge_two by (intro real_sqrt_less_mono) simp
  then have s2: "1 < sqrt (2 * pi)" by simp
  have pos: "0 < sqrt (2 * pi)" using s2 by simp
  have "1 / 6 = (1 / 2) / (3::real)" by simp
  also have "\<dots> \<le> exp (- (u * u) / 2) / sqrt (2 * pi)"
    using e1 s1 pos by (intro frac_le) simp_all
  finally show "1 / 6 \<le> fst (kernel' smallObject u)" by (simp add: small_kernel)
  have "exp (- (u * u) / 2) / sqrt (2 * pi) < 1 / 1"
    using e2 s2 by (intro frac_less2) simp_all
  then show "fst (kernel' smallObject u) < 1" by (simp add: small_kernel)
qed

lemma binOne_bounds:
  assumes "0 \<le> d" and "d \<le> 1"
  shows "threshold < binOne d" and "binOne d < 1"
proof -
  have "\<bar>1 - d\<bar> \<le> 1" using assms by simp
  then have k: "1 / 6 \<le> fst (kernel' smallObject (1 - d))" "fst (kernel' smallObject (1 - d)) < 1"
    by (rule small_kernel_bounds)+
  have p: "0 < 4 * pi" by simp
  have u: "4 * pi \<le> 16" using pi_less_4 by simp
  have "threshold < (1 / 6) / 16" by (simp add: threshold_def)
  also have "\<dots> \<le> binOne d"
    unfolding binOne_def using k(1) u p by (intro frac_le) simp_all
  finally show "threshold < binOne d" .
  have "1 \<le> 4 * pi" using pi_ge_two by simp
  then have "fst (kernel' smallObject (1 - d)) / (4 * pi) \<le> fst (kernel' smallObject (1 - d)) / 1"
    using k(1) by (intro divide_left_mono) simp_all
  then have "binOne d \<le> fst (kernel' smallObject (1 - d))"
    unfolding binOne_def by (simp only: div_by_1)
  then show "binOne d < 1" using k(2) by (rule le_less_trans)
qed

lemma two_atoms_valueStage:
  assumes "0 < modulo2 (delta a b)" and "modulo2 (delta a b) < 1"
  shows "\<exists>l. valueStage (smallObject\<lparr>serial := True\<rparr>) (twoAtoms a b) r = Inr l
          \<and> l_pairEntropy l = twoAtomsEntropy (sqrt (modulo2 (delta a b)))"
proof -
  let ?cfg = "smallObject\<lparr>serial := True\<rparr>"
  let ?d = "sqrt (modulo2 (delta a b))"
  have d: "0 \<le> ?d" "?d \<le> 1" using assms by simp_all
  from two_atoms_accumulate [OF assms, of r] obtain acc where
    acc: "accumulate ?cfg (twoAtoms a b) r = Inr acc"
    and g: "gofr acc = [fst (kernel' smallObject (0 - ?d)), fst (kernel' smallObject (1 - ?d))]"
    by blast
  have red: "reduce ?cfg (twoAtoms a b) r = Inr acc"
    by (simp add: reduce_def acc)
  have dens: "density ?cfg (twoAtoms a b) = Inr 1"
    by (simp add: density_def smallObject_def)
  have c: "nhist ?cfg = 2" "deltar ?cfg = 1" "\<not> doReferenceGofr ?cfg" "vectorX2 ?cfg = [0, 1]"
    "\<not> doAverageGofr ?cfg"
    by (simp_all add: smallObject_def)
  have n: "getNumberOfAtoms (twoAtoms a b) = 2"
    by (simp add: getNumberOfAtoms_def twoAtoms_def)
  have c': "nhist smallObject = 2" "vectorX2 smallObject = [0, 1]" "deltar smallObject = 1"
    "\<not> doReferenceGofr smallObject" "\<not> doAverageGofr smallObject"
    by (simp_all add: smallObject_def)
  define nrm where "nrm = acc\<lparr> gofr := (gofr acc)[1 := gofr acc ! 1 / (4 * pi)],
                   gofrVirial := (gofrVirial acc)[1 := divT (gofrVirial acc ! 1) (4 * pi)],
                   gofrPrime :=
                     (gofrPrime acc)[1 := map (\<lambda>v. divV v (4 * pi)) (gofrPrime acc ! 1)] \<rparr>"
  have nrm: "normalizeGofr ?cfg (twoAtoms a b) (2 * pi * 1) acc = Inr nrm"
    by (simp add: normalizeGofr_def normalizeBin_def c' n upt_small nrm_def Let_def)
  have gn: "gofr nrm = [fst (kernel' smallObject (0 - ?d)), binOne ?d]"
    by (simp add: nrm_def g binOne_def)
  have avg: "averageGofr ?cfg (gofr nrm) = Inr (?cfg, gofr nrm)"
    by (simp add: averageGofr_def c c')
  have k0: "\<not> fst (kernel' smallObject (0 - ?d)) < threshold"
    using small_kernel_bounds(1) [of "0 - ?d"] d by (simp add: threshold_def)
  have g1: "\<not> binOne ?d < threshold" using binOne_bounds(1) [OF d] by simp
  have scan: "scanGofr (gofr nrm) 0 0 = Inr 0"
    using k0 by (simp add: scanGofr_0 gn)
  have ig: "map (integrandAt ?cfg (gofr nrm)) [0..<nhist ?cfg]
      = [0, binOne ?d * ln (binOne ?d) - binOne ?d + 1]"
    using k0 g1 by (simp add: c c' upt_small integrandAt_def logGofrAt_def gn)
  have it: "integrate [0, binOne ?d * ln (binOne ?d) - binOne ?d + 1] (deltar ?cfg)
      = Inr ((binOne ?d * ln (binOne ?d) - binOne ?d + 1) / 2)"
    by (simp add: integrate_def c c')
  show ?thesis
    unfolding valueStage_def red dens bindE_simps Let_def nrm avg snd_conv fst_conv scan ig it
    by (simp add: twoAtomsEntropy_def)
qed

lemma slide2_deriv: "((slide2 s h) has_real_derivative (s * vx h)) (at 0)"
  unfolding slide2_def
  by (auto intro!: derivative_eq_intros)

lemma slide2_0: "slide2 s h 0 = 1 / 4"
  by (simp add: slide2_def)

lemma slide_distance_deriv:
  "((\<lambda>t. sqrt (slide2 s h t)) has_real_derivative (s * vx h)) (at 0)"
  using slide2_deriv [of s h]
  by (auto intro!: derivative_eq_intros simp add: slide2_0 sqrt_quarter)

lemma small_kernel_deriv:
  assumes "(d has_real_derivative d') (at x)"
  shows "((\<lambda>t. fst (kernel' smallObject (1 - d t))) has_real_derivative
           fst (kernel' smallObject (1 - d x)) * ((1 - d x) * d')) (at x)"
proof -
  have u: "((\<lambda>t. - ((1 - d t) * (1 - d t)) / 2) has_real_derivative (1 - d x) * d') (at x)"
    using assms by (auto intro!: derivative_eq_intros simp add: field_simps)
  have "((\<lambda>t. c * exp (- ((1 - d t) * (1 - d t)) / 2)) has_real_derivative
           c * (exp (- ((1 - d x) * (1 - d x)) / 2) * ((1 - d x) * d'))) (at x)" for c
    by (intro DERIV_cmult DERIV_fun_exp u)
  then show ?thesis unfolding small_kernel by (simp only: mult.assoc)
qed

lemma binOne_deriv:
  assumes "(d has_real_derivative d') (at x)"
  shows "((\<lambda>t. binOne (d t)) has_real_derivative
           fst (kernel' smallObject (1 - d x)) * ((1 - d x) * d') / (4 * pi)) (at x)"
  unfolding binOne_def
  using small_kernel_deriv [OF assms] by (auto intro!: derivative_eq_intros)

lemma twoAtomsEntropy_deriv:
  assumes "(d has_real_derivative d') (at x)" and "0 < binOne (d x)"
  shows "((\<lambda>t. twoAtomsEntropy (d t)) has_real_derivative
           - (2 * pi) * (ln (binOne (d x))
              * (fst (kernel' smallObject (1 - d x)) * ((1 - d x) * d') / (4 * pi)) / 2)) (at x)"
  unfolding twoAtomsEntropy_def
  using binOne_deriv [OF assms(1)] assms(2)
  by (auto intro!: derivative_eq_intros simp add: field_simps)

lemma reportedEntropy_outputs:
  "reportedEntropy res = (case map_sum id snd res of Inl e \<Rightarrow> 0 | Inr out \<Rightarrow> pairEntropy out)"
  by (cases res) (simp_all add: reportedEntropy_def)

lemma two_atoms_serial_entropy:
  assumes "0 < modulo2 (delta a b)" and "modulo2 (delta a b) < 1" and "0 < P"
  shows "reportedEntropy (calculate (smallObject\<lparr>serial := True\<rparr>)
            ((twoAtoms a b)\<lparr>comm_size := P, comm_rank := c\<rparr>))
          = twoAtomsEntropy (sqrt (modulo2 (delta a b)))"
proof -
  let ?cfg = "smallObject\<lparr>serial := True\<rparr>"
  let ?env = "(twoAtoms a b)\<lparr>comm_size := P, comm_rank := c\<rparr>"
  from two_atoms_valueStage [OF assms(1,2), of 0] obtain l where
    l: "valueStage ?cfg (twoAtoms a b) 0 = Inr l"
    and e: "l_pairEntropy l = twoAtomsEntropy (sqrt (modulo2 (delta a b)))"
    by blast
  have d: "\<not> doneigh smallObject" by (simp add: smallObject_def)
  have vs: "\<And>r. valueStage ?cfg ?env r = Inr l"
    by (simp only: valueStage_serial_any [OF d] l)
  have p: "0 < comm_size ?env" using assms(3) by simp
  show ?thesis
    unfolding calculate_uniform [OF vs p]
    by (simp add: reportedEntropy_def e)
qed

lemma two_atoms_entropy:
  assumes "0 < modulo2 (delta a b)" and "modulo2 (delta a b) < 1" and "0 < P"
  shows "reportedEntropy (calculate (smallObject\<lparr>serial := s\<rparr>)
            ((twoAtoms a b)\<lparr>comm_size := P, comm_rank := c\<rparr>))
          = twoAtomsEntropy (sqrt (modulo2 (delta a b)))"
proof (cases s)
  case True
  then show ?thesis using assms by (simp only: two_atoms_serial_entropy)
next
  case False
  let ?env = "(twoAtoms a b)\<lparr>comm_size := P, comm_rank := c\<rparr>"
  have d: "\<not> doneigh smallObject" by (simp add: smallObject_def)
  have p: "0 < comm_size ?env" using assms(3) by simp
  have e: "?env\<lparr>comm_size := 1, comm_rank := 0\<rparr> = (twoAtoms a b)\<lparr>comm_size := 1, comm_rank := 0\<rparr>"
    by simp
  have "reportedEntropy (calculate (smallObject\<lparr>serial := False\<rparr>) ?env)
      = reportedEntropy (calculate (smallObject\<lparr>serial := True\<rparr>)
          ((twoAtoms a b)\<lparr>comm_size := 1, comm_rank := 0\<rparr>))"
    unfolding reportedEntropy_outputs serial_parallel_outputs [OF d p] e ..
  also have "\<dots> = twoAtomsEntropy (sqrt (modulo2 (delta a b)))"
    using assms(1,2) by (intro two_atoms_serial_entropy) simp_all
  finally show ?thesis using False by simp
qed

lemma move_atom_one:
  "moveAtom (nearStep\<lparr>comm_size := P\<rparr>) 1 p
     = (twoAtoms (Vector 0 0 0) p)\<lparr>comm_size := P, comm_rank := 0\<rparr>"
  by (simp add: moveAtom_def nearStep_def twoAtoms_def)

lemma move_atom_zero:
  "moveAtom (nearStep\<lparr>comm_size := P\<rparr>) 0 p
     = (twoAtoms p (Vector (1 / 2) 0 0))\<lparr>comm_size := P, comm_rank := 0\<rparr>"
  by (simp add: moveAtom_def nearStep_def twoAtoms_def)

lemma slide2_one:
  "modulo2 (delta (Vector 0 0 0) (Vector (1 / 2) 0 0 + scaleV t h)) = slide2 1 h t"
  by (simp add: modulo2_def delta_def minus_Vector_def plus_Vector_def scaleV_def slide2_def)

lemma slide2_zero:
  "modulo2 (delta (Vector 0 0 0 + scaleV t h) (Vector (1 / 2) 0 0)) = slide2 (- 1) h t"
  by (simp add: modulo2_def delta_def minus_Vector_def plus_Vector_def scaleV_def slide2_def)

lemma slide2_eventually:
  "eventually (\<lambda>t. 0 < slide2 s h t \<and> slide2 s h t < 1) (nhds 0)"
proof -
  have "isCont (slide2 s h) 0"
    using slide2_deriv by (rule DERIV_isCont)
  then have "(slide2 s h \<longlongrightarrow> slide2 s h 0) (nhds 0)"
    by (simp add: isCont_def tendsto_at_iff_tendsto_nhds)
  then have t: "(slide2 s h \<longlongrightarrow> 1 / 4) (nhds 0)" by (simp add: slide2_0)
  have "eventually (\<lambda>t. 0 < slide2 s h t) (nhds 0)"
    using t by (rule order_tendstoD) simp
  moreover have "eventually (\<lambda>t. slide2 s h t < 1) (nhds 0)"
    using t by (rule order_tendstoD) simp
  ultimately show ?thesis by (rule eventually_conj)
qed

lemma kernel_half: "fst (kernel' smallObject (1 / 2)) = kernelHalf"
  by (simp add: small_kernel kernelHalf_def)

lemma slide_entropy_deriv:
  "((\<lambda>t. twoAtomsEntropy (sqrt (slide2 s h t))) has_real_derivative
      - (s * nearGradient 1 * vx h)) (at 0)"
proof -
  have b: "binOne (sqrt (slide2 s h 0)) = kernelHalf / (4 * pi)"
    by (simp add: slide2_0 sqrt_quarter binOne_def kernel_half)
  have p: "0 < binOne (sqrt (slide2 s h 0))"
    unfolding b using kernelHalf_bounds(1) by simp
  have d: "((\<lambda>t. twoAtomsEntropy (sqrt (slide2 s h t))) has_real_derivative
           - (2 * pi) * (ln (binOne (sqrt (slide2 s h 0)))
              * (fst (kernel' smallObject (1 - sqrt (slide2 s h 0)))
                  * ((1 - sqrt (slide2 s h 0)) * (s * vx h)) / (4 * pi)) / 2)) (at 0)"
    using slide_distance_deriv p by (rule twoAtomsEntropy_deriv)
  have e: "- (2 * pi) * (ln (binOne (sqrt (slide2 s h 0)))
              * (fst (kernel' smallObject (1 - sqrt (slide2 s h 0)))
                  * ((1 - sqrt (slide2 s h 0)) * (s * vx h)) / (4 * pi)) / 2)
      = - (s * nearGradient 1 * vx h)"
    unfolding b by (simp add: slide2_0 sqrt_quarter kernel_half nearGradient_def)
  show ?thesis using d unfolding e .
qed

lemma near_entropy_deriv:
  assumes "0 < P"
  shows "((\<lambda>t. reportedEntropy (calculate (smallObject\<lparr>serial := s\<rparr>)
              (moveAtom (nearStep\<lparr>comm_size := P\<rparr>) 1 (Vector (1 / 2) 0 0 + scaleV t h))))
           has_real_derivative dotProduct (Vector (- nearGradient 1) 0 0) h) (at 0)"
    and "((\<lambda>t. reportedEntropy (calculate (smallObject\<lparr>serial := s\<rparr>)
              (moveAtom (nearStep\<lparr>comm_size := P\<rparr>) 0 (Vector 0 0 0 + scaleV t h))))
           has_real_derivative dotProduct (Vector (nearGradient 1) 0 0) h) (at 0)"
proof -
  have "eventually (\<lambda>t. reportedEntropy (calculate (smallObject\<lparr>serial := s\<rparr>)
              (moveAtom (nearStep\<lparr>comm_size := P\<rparr>) 1 (Vector (1 / 2) 0 0 + scaleV t h)))
            = twoAtomsEntropy (sqrt (slide2 1 h t))) (nhds 0)"
    using slide2_eventually [of 1 h]
  proof (rule eventually_mono)
    fix t assume "0 < slide2 1 h t \<and> slide2 1 h t < 1"
    then show "reportedEntropy (calculate (smallObject\<lparr>serial := s\<rparr>)
              (moveAtom (nearStep\<lparr>comm_size := P\<rparr>) 1 (Vector (1 / 2) 0 0 + scaleV t h)))
            = twoAtomsEntropy (sqrt (slide2 1 h t))"
      unfolding move_atom_one slide2_one [symmetric]
      using assms by (intro two_atoms_entropy) simp_all
  qed
  then have "((\<lambda>t. reportedEntropy (calculate (smallObject\<lparr>serial := s\<rparr>)
              (moveAtom (nearStep\<lparr>comm_size := P\<rparr>) 1 (Vector (1 / 2) 0 0 + scaleV t h))))
           has_real_derivative - (1 * nearGradient 1 * vx h)) (at 0)
      = ((\<lambda>t. twoAtomsEntropy (sqrt (slide2 1 h t))) has_real_derivative
           - (1 * nearGradient 1 * vx h)) (at 0)"
    by (intro DERIV_cong_ev) simp_all
  then show "((\<lambda>t. reportedEntropy (calculate (smallObject\<lparr>serial := s\<rparr>)
              (moveAtom (nearStep\<lparr>comm_size := P\<rparr>) 1 (Vector (1 / 2) 0 0 + scaleV t h))))
           has_real_derivative dotProduct (Vector (- nearGradient 1) 0 0) h) (at 0)"
    using slide_entropy_deriv [of 1 h] by (simp add: dotProduct_def)
  have "eventually (\<lambda>t. reportedEntropy (calculate (smallObject\<lparr>serial := s\<rparr>)
              (moveAtom (nearStep\<lparr>comm_size := P\<rparr>) 0 (Vector 0 0 0 + scaleV t h)))
            = twoAtomsEntropy (sqrt (slide2 (- 1) h t))) (nhds 0)"
    using slide2_eventually [of "- 1" h]
  proof (rule eventually_mono)
    fix t assume "0 < slide2 (- 1) h t \<and> slide2 (- 1) h t < 1"
    then show "reportedEntropy (calculate (smallObject\<lparr>serial := s\<rparr>)
              (moveAtom (nearStep\<lparr>comm_size := P\<rparr>) 0 (Vector 0 0 0 + scaleV t h)))
            = twoAtomsEntropy (sqrt (slide2 (- 1) h t))"
      unfolding move_atom_zero slide2_zero [symmetric]
      using assms by (intro two_atoms_entropy) simp_all
  qed
  then have "((\<lambda>t. reportedEntropy (calculate (smallObject\<lparr>serial := s\<rparr>)
              (moveAtom (nearStep\<lparr>comm_size := P\<rparr>) 0 (Vector 0 0 0 + scaleV t h))))
           has_real_derivative - (- 1 * nearGradient 1 * vx h)) (at 0)
      = ((\<lambda>t. twoAtomsEntropy (sqrt (slide2 (- 1) h t))) has_real_derivative
           - (- 1 * nearGradient 1 * vx h)) (at 0)"
    by (intro DERIV_cong_ev) simp_all
  then show "((\<lambda>t. reportedEntropy (calculate (smallObject\<lparr>serial := s\<rparr>)
              (moveAtom (nearStep\<lparr>comm_size := P\<rparr>) 0 (Vector 0 0 0 + scaleV t h))))
           has_real_derivative dotProduct (Vector (nearGradient 1) 0 0) h) (at 0)"
    using slide_entropy_deriv [of "- 1" h] by (simp add: dotProduct_def)
qed

lemma near_serial_two:
  "map_sum id snd (calculate (smallObject\<lparr>serial := True\<rparr>) (nearStep\<lparr>comm_size := 2\<rparr>)) =
     Inr \<lparr> pairEntropy = nearEntropy 1,
           deriv = [Vector (2 * nearGradient 1) 0 0, Vector (- (2 * nearGradient 1)) 0 0],
           virial = Tensor (nearGradient 1 / 2) 0 0 0 0 0 0 0 0 \<rparr>"
proof -
  have e: "\<not> doneigh smallObject" "0 < comm_size (nearStep\<lparr>comm_size := 2\<rparr>)"
    "\<not> doNotCalculateDerivatives (nearStep\<lparr>comm_size := 2\<rparr>)"
    "real (comm_size (nearStep\<lparr>comm_size := 2\<rparr>)) = 2"
    by (simp_all add: smallObject_def nearStep_def)
  show ?thesis
    unfolding serial_group_outputs [OF e(1,2,3)] two_processes near_calculate_one e(4)
    by (simp add: scaleV_def)
qed

text \<open>
  Claim C1 at a failing input, over exact real arithmetic. Two atoms half a unit apart,
  SERIAL on a group of two processes. Along every direction \<open>h\<close> the pair entropy
  reported on the step with atom 1 (atom 0) displaced by \<open>t\<close> times \<open>h\<close> has, at
  \<open>t = 0\<close>, the derivative \<open>-g\<close> (\<open>g\<close>) times the x-component of \<open>h\<close>, where
  \<open>g\<close> is not zero: the limit of the central differences. The derivatives reported by
  the SERIAL run are (2g, 0, 0) for atom 0 and (-2g, 0, 0) for atom 1, twice that, and
  so not the derivative of the reported value. Without SERIAL, on the same two processes,
  the value is the same function of the positions and the reported derivatives are
  (g, 0, 0) and (-g, 0, 0): there they are the derivative of the reported value.
\<close>

theorem serial_gradient_not_derivative:
  "(\<forall>h. ((\<lambda>t. reportedEntropy (calculate (smallObject\<lparr>serial := True\<rparr>)
              (moveAtom (nearStep\<lparr>comm_size := 2\<rparr>) 1 (Vector (1 / 2) 0 0 + scaleV t h))))
           has_real_derivative dotProduct (Vector (- nearGradient 1) 0 0) h) (at 0))
   \<and> (\<forall>h. ((\<lambda>t. reportedEntropy (calculate (smallObject\<lparr>serial := True\<rparr>)
              (moveAtom (nearStep\<lparr>comm_size := 2\<rparr>) 0 (Vector 0 0 0 + scaleV t h))))
           has_real_derivative dotProduct (Vector (nearGradient 1) 0 0) h) (at 0))
   \<and> map (getPosition (nearStep\<lparr>comm_size := 2\<rparr>)) [0, 1] = [Vector 0 0 0, Vector (1 / 2) 0 0]
   \<and> map_sum id (\<lambda>res. deriv (snd res))
         (calculate (smallObject\<lparr>serial := True\<rparr>) (nearStep\<lparr>comm_size := 2\<rparr>))
       = Inr [Vector (2 * nearGradient 1) 0 0, Vector (- (2 * nearGradient 1)) 0 0]
   \<and> \<not> ((\<lambda>t. reportedEntropy (calculate (smallObject\<lparr>serial := True\<rparr>)
              (moveAtom (nearStep\<lparr>comm_size := 2\<rparr>) 1
                 (Vector (1 / 2) 0 0 + scaleV t (Vector 1 0 0)))))
           has_real_derivative
             dotProduct (Vector (- (2 * nearGradient 1)) 0 0) (Vector 1 0 0)) (at 0)
   \<and> map_sum id (\<lambda>res. deriv (snd res)) (calculate smallObject (nearStep\<lparr>comm_size := 2\<rparr>))
       = Inr [Vector (nearGradient 1) 0 0, Vector (- nearGradient 1) 0 0]
   \<and> (\<forall>h. ((\<lambda>t. reportedEntropy (calculate smallObject
              (moveAtom (nearStep\<lparr>comm_size := 2\<rparr>) 1 (Vector (1 / 2) 0 0 + scaleV t h))))
           has_real_derivative dotProduct (Vector (- nearGradient 1) 0 0) h) (at 0))
   \<and> (\<forall>h. ((\<lambda>t. reportedEntropy (calculate smallObject
              (moveAtom (nearStep\<lparr>comm_size := 2\<rparr>) 0 (Vector 0 0 0 + scaleV t h))))
           has_real_derivative dotProduct (Vector (nearGradient 1) 0 0) h) (at 0))"
proof -
  have s: "smallObject = smallObject\<lparr>serial := False\<rparr>" by (simp add: smallObject_def)
  have p: "0 < (2::nat)" by simp
  note d = near_entropy_deriv [OF p]
  have g: "nearGradient 1 \<noteq> 0" by (rule nearGradient_nonzero) simp_all
  have pos: "map (getPosition (nearStep\<lparr>comm_size := 2\<rparr>)) [0, 1]
      = [Vector 0 0 0, Vector (1 / 2) 0 0]"
    by (simp add: getPosition_def nearStep_def)
  have ser: "map_sum id (\<lambda>res. deriv (snd res))
         (calculate (smallObject\<lparr>serial := True\<rparr>) (nearStep\<lparr>comm_size := 2\<rparr>))
       = Inr [Vector (2 * nearGradient 1) 0 0, Vector (- (2 * nearGradient 1)) 0 0]"
    using near_serial_two
    by (cases "calculate (smallObject\<lparr>serial := True\<rparr>) (nearStep\<lparr>comm_size := 2\<rparr>)") auto
  have par: "map_sum id (\<lambda>res. deriv (snd res)) (calculate smallObject (nearStep\<lparr>comm_size := 2\<rparr>))
       = Inr [Vector (nearGradient 1) 0 0, Vector (- nearGradient 1) 0 0]"
    using near_parallel
    by (cases "calculate smallObject (nearStep\<lparr>comm_size := 2\<rparr>)") auto
  have no: "\<not> ((\<lambda>t. reportedEntropy (calculate (smallObject\<lparr>serial := True\<rparr>)
              (moveAtom (nearStep\<lparr>comm_size := 2\<rparr>) 1
                 (Vector (1 / 2) 0 0 + scaleV t (Vector 1 0 0)))))
           has_real_derivative
             dotProduct (Vector (- (2 * nearGradient 1)) 0 0) (Vector 1 0 0)) (at 0)"
  proof
    assume "((\<lambda>t. reportedEntropy (calculate (smallObject\<lparr>serial := True\<rparr>)
              (moveAtom (nearStep\<lparr>comm_size := 2\<rparr>) 1
                 (Vector (1 / 2) 0 0 + scaleV t (Vector 1 0 0)))))
           has_real_derivative
             dotProduct (Vector (- (2 * nearGradient 1)) 0 0) (Vector 1 0 0)) (at 0)"
    then have "dotProduct (Vector (- (2 * nearGradient 1)) 0 0) (Vector 1 0 0)
        = dotProduct (Vector (- nearGradient 1) 0 0) (Vector 1 0 0)"
      using d(1) [of True "Vector 1 0 0"] by (rule DERIV_unique)
    then show False using g by (simp add: dotProduct_def)
  qed
  show ?thesis
    using d(1) [of True] d(2) [of True] d(1) [of False] d(2) [of False] pos ser no par
    unfolding s [symmetric] by blast
qed

end
